theory Spec2Isabelle
  imports Complex_Main "HOL-Library.Word"
begin

section \<open>Text escaping\<close>

text \<open>
  A \<open>std::string\<close> is a sequence of bytes, modelled as a \<open>string\<close> (a list of
  8-bit \<open>char\<close>s). The characters that cannot be written inside an Isabelle string
  literal are named by their byte value.
\<close>

definition dquote :: char where
  "dquote = CHR 0x22"

definition apostrophe :: char where
  "apostrophe = CHR 0x27"

definition backslash :: char where
  "backslash = CHR 0x5C"

definition newline :: char where
  "newline = CHR 0x0A"

definition tab :: char where
  "tab = CHR 0x09"

definition carriage_return :: char where
  "carriage_return = CHR 0x0D"

text \<open>
  The \<open>switch\<close> in the stream operator of \<open>EscapedString\<close>: the replacement text of
  a byte, empty when the byte is not escaped. The cases are tried in the order of the
  source.
\<close>

definition escape_of :: "char \<Rightarrow> string" where
  "escape_of c =
     (if c = CHR ''&'' then ''&amp;''
      else if c = dquote then ''&quot;''
      else if c = apostrophe then ''&apos;''
      else if c = CHR ''<'' then ''&lt;''
      else if c = CHR ''>'' then ''&gt;''
      else if c = newline then [backslash, CHR ''n'']
      else if c = tab then [backslash, CHR ''t'']
      else if c = carriage_return then [backslash, CHR ''r'']
      else [])"

text \<open>
  \<open>encode\<close>: the loop \<open>for (auto c : str)\<close> appends to \<open>buffer\<close>, which is the
  accumulator of \<open>encode_loop\<close>; the \<open>default\<close> case appends the byte itself.
\<close>

fun encode_loop :: "string \<Rightarrow> string \<Rightarrow> string" where
  "encode_loop [] buffer = buffer"
| "encode_loop (c # str) buffer =
     encode_loop str
       (if c = CHR ''&'' then buffer @ ''&amp;''
        else if c = dquote then buffer @ ''&quot;''
        else if c = apostrophe then buffer @ ''&apos;''
        else if c = CHR ''<'' then buffer @ ''&lt;''
        else if c = CHR ''>'' then buffer @ ''&gt;''
        else if c = newline then buffer @ [backslash, CHR ''n'']
        else if c = tab then buffer @ [backslash, CHR ''t'']
        else if c = carriage_return then buffer @ [backslash, CHR ''r'']
        else buffer @ [c])"

definition encode :: "string \<Rightarrow> string" where
  "encode str = encode_loop str []"

text \<open>The eight bytes that \<open>encode\<close> replaces.\<close>

definition escaped_chars :: "char set" where
  "escaped_chars =
     {CHR ''&'', dquote, apostrophe, CHR ''<'', CHR ''>'', newline, tab, carriage_return}"

text \<open>What one byte becomes, as the specification lists it.\<close>

definition encode_char :: "char \<Rightarrow> string" where
  "encode_char c = (if c \<in> escaped_chars then escape_of c else [c])"


section \<open>Players\<close>

text \<open>
  The enumerations of the playerctl library, and its \<open>PlayerctlPlayerName\<close> structure
  (\<open>name\<close>, \<open>instance\<close>, \<open>source\<close>); the fields are written \<open>pn_name\<close>,
  \<open>pn_instance\<close> and \<open>pn_source\<close>, since \<open>PlayerUID\<close> has fields \<open>name\<close> and
  \<open>source\<close> too.
\<close>

datatype PlayerctlSource =
  PLAYERCTL_SOURCE_NONE | PLAYERCTL_SOURCE_DBUS_SESSION | PLAYERCTL_SOURCE_DBUS_SYSTEM

datatype PlayerctlPlaybackStatus =
  PLAYERCTL_PLAYBACK_STATUS_PLAYING | PLAYERCTL_PLAYBACK_STATUS_PAUSED
  | PLAYERCTL_PLAYBACK_STATUS_STOPPED

datatype PlayerctlLoopStatus =
  PLAYERCTL_LOOP_STATUS_NONE | PLAYERCTL_LOOP_STATUS_TRACK | PLAYERCTL_LOOP_STATUS_PLAYLIST

record PlayerctlPlayerName =
  pn_name :: string
  pn_instance :: string
  pn_source :: PlayerctlSource

record PlayerUID =
  uid_name :: string
  uid_source :: PlayerctlSource

text \<open>\<open>PlayerUID::operator ==\<close>.\<close>

definition uid_eq :: "PlayerUID \<Rightarrow> PlayerUID \<Rightarrow> bool" where
  "uid_eq v other = (uid_source v = uid_source other \<and> uid_name v = uid_name other)"

text \<open>
  \<open>struct Metadata\<close>; the field \<open>length\<close> is written \<open>mlength\<close> (a \<open>uint64_t\<close>).
\<close>

record Metadata =
  mlength :: "64 word"
  trackid :: string
  title :: string
  album :: string
  artist :: string
  art_url :: string
  url :: string

text \<open>
  \<open>Player::State\<close>. The \<open>volume\<close> is a \<open>double\<close> that the program stores and never
  computes with; it is carried as a \<open>real\<close>.
\<close>

record Player_State =
  metadata :: Metadata
  loop_status :: PlayerctlLoopStatus
  playback_status :: PlayerctlPlaybackStatus
  volume :: real
  seeked_to :: "64 word"
  shuffle :: bool

text \<open>
  \<open>struct Player\<close>. The wrapped \<open>PlayerctlPlayer\<close> object and the pointer to the
  handler are not part of the model: there is one handler, and what a \<open>Player\<close> tells
  it is returned as a list of \<open>event\<close>s by the function that would have called it.
\<close>

record Player =
  uid :: PlayerUID
  state :: Player_State
  is_selected :: bool

text \<open>
  What a function of the player manager does besides changing the registry, in the
  order in which it does it: a line printed by \<open>display_print\<close>, or a call of the
  handler (\<open>on_select\<close> with the player as it is at the call, \<open>on_empty\<close>).
\<close>

datatype event =
  DisplayPrint string | OnSelect Player | OnEmpty

text \<open>
  The ways in which a function can fail to return normally: the \<open>std::runtime_error\<close>
  that \<open>handle_gfunc\<close> throws, the \<open>std::filesystem::filesystem_error\<close> of a file
  operation, a read outside a vector or a character buffer (undefined in C++), and a
  call of a GLib function against its precondition (a failed
  \<open>g_return_val_if_fail\<close>, which GLib documents as a programming error with
  undefined behaviour).
\<close>

datatype error =
  RuntimeError string | FilesystemError string | OutOfRange | GLibCritical string

text \<open>Sequencing of two steps, the first of which may fail.\<close>

definition bind_err :: "error + 'a \<Rightarrow> ('a \<Rightarrow> error + 'b) \<Rightarrow> error + 'b" where
  "bind_err r f = (case r of Inl e \<Rightarrow> Inl e | Inr v \<Rightarrow> f v)"

text \<open>\<open>Player::select\<close>: sets the flag, then calls \<open>on_select\<close> with the player.\<close>

definition select :: "Player \<Rightarrow> event list \<times> Player" where
  "select p = (let p' = p\<lparr>is_selected := True\<rparr> in ([OnSelect p'], p'))"


section \<open>The player manager\<close>

text \<open>
  \<open>struct PlayerManager\<close>: the vector of managed players and the index of the selected
  one. A \<open>size_t\<close> is modelled as a \<open>nat\<close>; the one place where the program relies on
  its 64-bit representation is the constant \<open>NON_IDX = -1\<close>, which is \<open>2^64 - 1\<close>.
\<close>

record PlayerManager =
  managed_players :: "Player list"
  selected_idx :: nat

definition NON_IDX :: nat where
  "NON_IDX = 2 ^ 64 - 1"

text \<open>The manager as its member initialisers leave it.\<close>

definition initial_manager :: PlayerManager where
  "initial_manager = \<lparr>managed_players = [], selected_idx = NON_IDX\<rparr>"

text \<open>
  \<open>selected_player\<close>: a null pointer (\<open>None\<close>) when nothing is selected, the element at
  \<open>selected_idx\<close> otherwise; the vector's \<open>operator[]\<close> does not check its index.
\<close>

definition selected_player :: "PlayerManager \<Rightarrow> error + Player option" where
  "selected_player m =
     (if selected_idx m = NON_IDX then Inr None
      else if selected_idx m < length (managed_players m)
        then Inr (Some (managed_players m ! selected_idx m))
      else Inl OutOfRange)"

text \<open>
  \<open>std::ranges::find_if\<close> as the position of the first element that satisfies the
  predicate, the length of the list (\<open>end()\<close>) when there is none; \<open>vector::erase\<close> of
  one position.
\<close>

fun find_if :: "('a \<Rightarrow> bool) \<Rightarrow> 'a list \<Rightarrow> nat" where
  "find_if P [] = 0"
| "find_if P (x # xs) = (if P x then 0 else Suc (find_if P xs))"

definition erase :: "nat \<Rightarrow> 'a list \<Rightarrow> 'a list" where
  "erase i xs = take i xs @ drop (Suc i) xs"

text \<open>
  \<open>add_player_by_name\<close>. The argument \<open>created\<close> is what \<open>new Player{...}\<close> yields for
  this name: the \<open>std::runtime_error\<close> of \<open>handle_gfunc\<close> when playerctl cannot open
  the player, or the state that \<open>create_state\<close> reads from it. It is looked at only
  when the name is not yet managed.
\<close>

definition add_player_by_name ::
  "PlayerctlPlayerName \<Rightarrow> error + Player_State \<Rightarrow> PlayerManager
    \<Rightarrow> error + event list \<times> PlayerManager" where
  "add_player_by_name name created m =
     (let player_uid = \<lparr>uid_name = pn_instance name, uid_source = pn_source name\<rparr>;
          exists = list_ex (\<lambda>p. uid_eq (uid p) player_uid) (managed_players m)
      in if exists then Inr ([DisplayPrint ''Should not exist!''], m)
         else
           (case created of
              Inl e \<Rightarrow> Inl e
            | Inr st \<Rightarrow>
                (let player = \<lparr>uid = player_uid, state = st, is_selected = False\<rparr>
                 in if selected_idx m = NON_IDX
                    then
                      (let (evs, player') = select player;
                           players = managed_players m @ [player']
                       in Inr (evs,
                            \<lparr>managed_players = players, selected_idx = length players - 1\<rparr>))
                    else Inr ([], m\<lparr>managed_players := managed_players m @ [player]\<rparr>))))"

definition on_name_appeared ::
  "PlayerctlPlayerName \<Rightarrow> error + Player_State \<Rightarrow> PlayerManager
    \<Rightarrow> error + event list \<times> PlayerManager" where
  "on_name_appeared name created m = add_player_by_name name created m"

text \<open>
  \<open>on_name_vanished\<close>. After the entry is erased, the index is repaired only inside
  \<open>if (was_selected)\<close>; the final \<open>managed_players[selected_idx]->select()\<close> stands
  after that block and is reached on every path that has not returned.
\<close>

definition on_name_vanished ::
  "PlayerctlPlayerName \<Rightarrow> PlayerManager \<Rightarrow> error + event list \<times> PlayerManager" where
  "on_name_vanished name m =
     (let player_uid = \<lparr>uid_name = pn_instance name, uid_source = pn_source name\<rparr>;
          entry = find_if (\<lambda>p. uid_eq (uid p) player_uid) (managed_players m)
      in if entry = length (managed_players m)
         then Inr ([DisplayPrint ''Should exist!''], m)
         else
           (let was_selected = is_selected (managed_players m ! entry);
                players = erase entry (managed_players m)
            in if was_selected \<and> players = []
               then Inr ([OnEmpty], \<lparr>managed_players = players, selected_idx = NON_IDX\<rparr>)
               else
                 (let idx = (if was_selected \<and> length players \<le> selected_idx m then 0
                             else selected_idx m)
                  in if idx < length players
                     then
                       (let (evs, p') = select (players ! idx)
                        in Inr (evs, \<lparr>managed_players = players[idx := p'], selected_idx = idx\<rparr>))
                     else Inl OutOfRange)))"

text \<open>
  The registry states that the program can be in: the initial one, every state that
  a returning \<open>add_player_by_name\<close> (from the constructor's loop over the names
  already present, or from \<open>on_name_appeared\<close>) or \<open>on_name_vanished\<close> leaves, and
  every state in which a signal of a managed player (\<open>metadata\<close>,
  \<open>playback-status\<close>, \<open>loop-status\<close>, \<open>volume\<close>, \<open>shuffle\<close>) has stored a new value
  in the \<open>state\<close> of that player.
\<close>

inductive reachable :: "PlayerManager \<Rightarrow> bool" where
  initial: "reachable initial_manager"
| appeared:
    "reachable m \<Longrightarrow> add_player_by_name name created m = Inr (evs, m') \<Longrightarrow> reachable m'"
| vanished:
    "reachable m \<Longrightarrow> on_name_vanished name m = Inr (evs, m') \<Longrightarrow> reachable m'"
| state_changed:
    "reachable m \<Longrightarrow> i < length (managed_players m) \<Longrightarrow>
     reachable (m\<lparr>managed_players :=
                    (managed_players m)[i := (managed_players m ! i)\<lparr>state := st\<rparr>]\<rparr>)"

text \<open>The number of players whose \<open>is_selected\<close> flag is set.\<close>

definition selected_count :: "PlayerManager \<Rightarrow> nat" where
  "selected_count m = length (filter is_selected (managed_players m))"

text \<open>
  The invariant of the registry: it is empty and nothing is selected, or the first
  player is the selected one, \<open>selected_idx\<close> is 0 and no other player has its flag
  set.
\<close>

definition manager_inv :: "PlayerManager \<Rightarrow> bool" where
  "manager_inv m =
     (case managed_players m of
        [] \<Rightarrow> selected_idx m = NON_IDX
      | p # ps \<Rightarrow> selected_idx m = 0 \<and> is_selected p \<and> list_all (\<lambda>q. \<not> is_selected q) ps)"

section \<open>Metadata\<close>

text \<open>
  The \<open>metadata\<close> property of a player is a GLib dictionary from strings to variants
  (type \<open>a{sv}\<close>). Of the variant types only the four that the program asks for are
  told apart. A GLib string holds no zero byte, so the \<open>std::string\<close> built from it
  is the string itself.
\<close>

datatype GVariant =
  GUInt64 "64 word" | GString string | GObjectPath string | GStringArray "string list"
  | GOther

datatype GVariantType =
  G_VARIANT_TYPE_UINT64 | G_VARIANT_TYPE_STRING | G_VARIANT_TYPE_OBJECT_PATH
  | G_VARIANT_TYPE_STRING_ARRAY

fun g_variant_is_of_type :: "GVariant \<Rightarrow> GVariantType \<Rightarrow> bool" where
  "g_variant_is_of_type (GUInt64 _) ty = (ty = G_VARIANT_TYPE_UINT64)"
| "g_variant_is_of_type (GString _) ty = (ty = G_VARIANT_TYPE_STRING)"
| "g_variant_is_of_type (GObjectPath _) ty = (ty = G_VARIANT_TYPE_OBJECT_PATH)"
| "g_variant_is_of_type (GStringArray _) ty = (ty = G_VARIANT_TYPE_STRING_ARRAY)"
| "g_variant_is_of_type GOther ty = False"

text \<open>
  \<open>g_variant_lookup_value\<close>: the value stored under the key when it has the expected
  type, a null pointer (\<open>None\<close>) when the key is absent or its value has another type.
\<close>

definition g_variant_lookup_value ::
  "(string \<rightharpoonup> GVariant) \<Rightarrow> string \<Rightarrow> GVariantType \<Rightarrow> GVariant option" where
  "g_variant_lookup_value dictionary key expected_type =
     (case dictionary key of
        None \<Rightarrow> None
      | Some v \<Rightarrow> if g_variant_is_of_type v expected_type then Some v else None)"

text \<open>
  The GLib getters. Each begins with a check of its argument (\<open>TYPE_CHECK\<close>, a
  \<open>g_return_val_if_fail\<close>); \<open>g_variant_get_strv\<close> is the one that the program calls
  with a pointer that may be null, so its argument is a \<open>GVariant option\<close>.
\<close>

fun g_variant_get_string :: "GVariant \<Rightarrow> error + string" where
  "g_variant_get_string (GString s) = Inr s"
| "g_variant_get_string (GObjectPath s) = Inr s"
| "g_variant_get_string _ = Inl (GLibCritical ''g_variant_get_string'')"

fun g_variant_get_uint64 :: "GVariant \<Rightarrow> error + 64 word" where
  "g_variant_get_uint64 (GUInt64 w) = Inr w"
| "g_variant_get_uint64 _ = Inl (GLibCritical ''g_variant_get_uint64'')"

fun g_variant_get_strv :: "GVariant option \<Rightarrow> error + string list" where
  "g_variant_get_strv (Some (GStringArray strv)) = Inr strv"
| "g_variant_get_strv _ = Inl (GLibCritical ''g_variant_get_strv'')"

definition metadata_get_track_id :: "(string \<rightharpoonup> GVariant) \<Rightarrow> error + string" where
  "metadata_get_track_id md =
     (let track_id_variant =
            (case g_variant_lookup_value md ''mpris:trackid'' G_VARIANT_TYPE_OBJECT_PATH of
               None \<Rightarrow> g_variant_lookup_value md ''mpris:trackid'' G_VARIANT_TYPE_STRING
             | Some v \<Rightarrow> Some v)
      in case track_id_variant of
           Some v \<Rightarrow> g_variant_get_string v
         | None \<Rightarrow> Inr [])"

definition metadata_get_u64_value :: "(string \<rightharpoonup> GVariant) \<Rightarrow> string \<Rightarrow> error + 64 word" where
  "metadata_get_u64_value md key =
     (case g_variant_lookup_value md key G_VARIANT_TYPE_UINT64 of
        None \<Rightarrow> Inr 0
      | Some variant \<Rightarrow> g_variant_get_uint64 variant)"

definition metadata_get_str_value :: "(string \<rightharpoonup> GVariant) \<Rightarrow> string \<Rightarrow> error + string" where
  "metadata_get_str_value md key =
     (case g_variant_lookup_value md key G_VARIANT_TYPE_STRING of
        None \<Rightarrow> Inr []
      | Some variant \<Rightarrow> g_variant_get_string variant)"

text \<open>
  The loop of \<open>metadata_get_str_array_value\<close> over \<open>i < prop_count\<close>, with \<open>result\<close> as
  accumulator: the rest of the array is the argument, and \<open>i \<noteq> prop_count - 1\<close> holds
  when the rest after the current string is not empty.
\<close>

fun join_strv :: "string list \<Rightarrow> string \<Rightarrow> string" where
  "join_strv [] result = result"
| "join_strv (s # rest) result =
     join_strv rest (if rest \<noteq> [] then result @ s @ '', '' else result @ s)"

text \<open>
  \<open>metadata_get_str_array_value\<close> hands the result of the lookup to
  \<open>g_variant_get_strv\<close> as it is: unlike the three functions above it has no
  \<open>if (variant == nullptr) return {}\<close>.
\<close>

definition metadata_get_str_array_value ::
  "(string \<rightharpoonup> GVariant) \<Rightarrow> string \<Rightarrow> error + string" where
  "metadata_get_str_array_value md key =
     (let variant = g_variant_lookup_value md key G_VARIANT_TYPE_STRING_ARRAY
      in bind_err (g_variant_get_strv variant) (\<lambda>prop_strv. Inr (join_strv prop_strv [])))"

definition parse_metadata :: "(string \<rightharpoonup> GVariant) \<Rightarrow> error + Metadata" where
  "parse_metadata variant =
     bind_err (metadata_get_u64_value variant ''mpris:length'') (\<lambda>v_length.
     bind_err (metadata_get_track_id variant) (\<lambda>v_trackid.
     bind_err (metadata_get_str_value variant ''xesam:title'') (\<lambda>v_title.
     bind_err (metadata_get_str_value variant ''xesam:album'') (\<lambda>v_album.
     bind_err (metadata_get_str_array_value variant ''xesam:artist'') (\<lambda>v_artist.
     bind_err (metadata_get_str_value variant ''mpris:artUrl'') (\<lambda>v_art_url.
     bind_err (metadata_get_str_value variant ''xesam:url'') (\<lambda>v_url.
       Inr \<lparr>mlength = v_length, trackid = v_trackid, title = v_title, album = v_album,
            artist = v_artist, art_url = v_art_url, url = v_url\<rparr>)))))))"

section \<open>UTF-8 strings\<close>

text \<open>
  The GLib functions that count and skip UTF-8 characters work on the character
  array behind \<open>c_str()\<close>: the bytes of the string and the terminating zero byte. A
  pointer into the array is the index of the byte it points to. A read at an index
  outside the array is \<open>OutOfRange\<close>.
\<close>

definition c_str :: "string \<Rightarrow> string" where
  "c_str s = s @ [CHR 0x00]"

text \<open>
  GLib's table \<open>g_utf8_skip\<close>: the number of bytes of the character that a byte
  starts.
\<close>

definition g_utf8_skip :: "char \<Rightarrow> nat" where
  "g_utf8_skip c =
     (let b = (of_char c :: nat)
      in if b < 0xC0 then 1
         else if b < 0xE0 then 2
         else if b < 0xF0 then 3
         else if b < 0xF8 then 4
         else if b < 0xFC then 5
         else if b < 0xFE then 6
         else 1)"

text \<open>
  \<open>g_utf8_strlen (p, -1)\<close>: \<open>while ( *p) { p = g_utf8_next_char (p); ++len; }\<close>.
\<close>

function g_utf8_strlen_loop :: "string \<Rightarrow> nat \<Rightarrow> nat \<Rightarrow> error + nat" where
  "g_utf8_strlen_loop buf p len =
     (if length buf \<le> p then Inl OutOfRange
      else if buf ! p = CHR 0x00 then Inr len
      else g_utf8_strlen_loop buf (p + g_utf8_skip (buf ! p)) (len + 1))"
  by pat_completeness auto
termination
  by (relation "measure (\<lambda>(buf, p, len). length buf - p)") (auto simp: g_utf8_skip_def Let_def)

definition g_utf8_strlen :: "string \<Rightarrow> error + nat" where
  "g_utf8_strlen s = g_utf8_strlen_loop (c_str s) 0 0"

text \<open>
  \<open>g_utf8_offset_to_pointer\<close> with an offset that is not negative:
  \<open>while (offset--) s = g_utf8_next_char (s);\<close>. It does not stop at a zero byte.
\<close>

fun g_utf8_offset_to_pointer :: "string \<Rightarrow> nat \<Rightarrow> nat \<Rightarrow> error + nat" where
  "g_utf8_offset_to_pointer buf p 0 = Inr p"
| "g_utf8_offset_to_pointer buf p (Suc offset) =
     (if length buf \<le> p then Inl OutOfRange
      else g_utf8_offset_to_pointer buf (p + g_utf8_skip (buf ! p)) offset)"

text \<open>
  The \<open>std::string_view\<close> between two pointers into the array.
\<close>

definition string_view :: "string \<Rightarrow> nat \<Rightarrow> nat \<Rightarrow> error + string" where
  "string_view buf b e =
     (if b \<le> e \<and> e \<le> length buf then Inr (take (e - b) (drop b buf)) else Inl OutOfRange)"

definition utf8_substr :: "string \<Rightarrow> nat \<Rightarrow> nat \<Rightarrow> error + string" where
  "utf8_substr str start len =
     bind_err (g_utf8_offset_to_pointer (c_str str) 0 start) (\<lambda>b.
     bind_err (g_utf8_offset_to_pointer (c_str str) b len) (\<lambda>e.
       string_view (c_str str) b e))"

text \<open>
  The stream operator of \<open>EscapedString\<close>: the loop over \<open>i\<close> with the index \<open>last\<close>
  (written \<open>last_i\<close>) of the first byte not yet written and the stream \<open>os\<close>, then the final flush.
\<close>

function escaped_loop :: "string \<Rightarrow> nat \<Rightarrow> nat \<Rightarrow> string \<Rightarrow> string" where
  "escaped_loop s i last_i os =
     (if i < length s
      then
        (let escape = escape_of (s ! i)
         in if escape \<noteq> []
            then escaped_loop s (i + 1) (i + 1)
                   ((if last_i < i then os @ take (i - last_i) (drop last_i s) else os) @ escape)
            else escaped_loop s (i + 1) last_i os)
      else (if last_i < length s then os @ take (length s - last_i) (drop last_i s) else os))"
  by pat_completeness auto
termination
  by (relation "measure (\<lambda>(s, i, last_i, os). length s - i)") auto

definition EscapedString :: "string \<Rightarrow> string" where
  "EscapedString s = escaped_loop s 0 0 []"


section \<open>The cover-art cache\<close>

text \<open>
  What lies at \<open>cache_path\<close>: nothing, a symbolic link with its target, or anything
  else (a file, a directory).
\<close>

datatype artifact = Symlink string | OtherFile

record filesystem =
  cache :: "artifact option"

datatype file_type = not_found | symlink | other_type

text \<open>
  How the system answers the calls of one \<open>update_cover_art\<close>: whether
  \<open>symlink_status\<close>, \<open>remove_all\<close> and \<open>create_symlink\<close> fail for a reason outside the
  program (permissions, a missing directory), and the value that \<open>std::system\<close>
  returns for the \<open>pkill\<close> command.
\<close>

record os_env =
  symlink_status_fails :: bool
  remove_all_fails :: bool
  create_symlink_fails :: bool
  system_ret :: int

text \<open>
  The three operations of \<open>std::filesystem\<close> on \<open>cache_path\<close>. Each throws a
  \<open>filesystem_error\<close> when it fails; a path that does not exist is not a failure of
  \<open>symlink_status\<close>. A failed operation leaves the path as it was; \<open>create_symlink\<close>
  also fails when something is already there.
\<close>

definition symlink_status :: "os_env \<Rightarrow> filesystem \<Rightarrow> error + file_type" where
  "symlink_status env fs =
     (if symlink_status_fails env then Inl (FilesystemError ''symlink_status'')
      else Inr (case cache fs of
                  None \<Rightarrow> not_found
                | Some (Symlink _) \<Rightarrow> symlink
                | Some OtherFile \<Rightarrow> other_type))"

definition remove_all :: "os_env \<Rightarrow> filesystem \<Rightarrow> error + filesystem" where
  "remove_all env fs =
     (if remove_all_fails env then Inl (FilesystemError ''remove_all'')
      else Inr (fs\<lparr>cache := None\<rparr>))"

definition create_symlink :: "os_env \<Rightarrow> string \<Rightarrow> filesystem \<Rightarrow> error + filesystem" where
  "create_symlink env target fs =
     (if create_symlink_fails env \<or> cache fs \<noteq> None
      then Inl (FilesystemError ''create_symlink'')
      else Inr (fs\<lparr>cache := Some (Symlink target)\<rparr>))"

text \<open>\<open>std::string::starts_with\<close>.\<close>

definition starts_with :: "string \<Rightarrow> string \<Rightarrow> bool" where
  "starts_with s pre = (take (length pre) s = pre)"

text \<open>\<open>e.what()\<close>.\<close>

fun what :: "error \<Rightarrow> string" where
  "what (RuntimeError msg) = msg"
| "what (FilesystemError msg) = msg"
| "what OutOfRange = []"
| "what (GLibCritical msg) = msg"


section \<open>The output generator\<close>

text \<open>
  What the program writes: a line on the standard output (the status line that the
  bar reads) or on the standard error.
\<close>

datatype out_msg = Stdout string | Stderr string

text \<open>The status lines among the outputs.\<close>

fun emissions :: "out_msg list \<Rightarrow> string list" where
  "emissions [] = []"
| "emissions (Stdout line # outs) = line # emissions outs"
| "emissions (Stderr line # outs) = emissions outs"

text \<open>
  \<open>struct OutputGenerator\<close> with its \<open>LastSource\<close>, whose fields \<open>title\<close>, \<open>artist\<close>
  and \<open>art_url\<close> are written \<open>src_title\<close>, \<open>src_artist\<close> and \<open>src_art_url\<close>. The
  member \<open>manager\<close> is the \<open>PlayerManager\<close> above; no function of the generator reads
  or writes it.
\<close>

record LastSource =
  src_title :: string
  src_artist :: string
  src_art_url :: string

record OutputGenerator =
  to_display :: string
  to_display_utf8_len :: nat
  needs_scrolling :: bool
  display_offset :: nat
  is_playing :: bool
  last_src :: LastSource

definition initial_generator :: OutputGenerator where
  "initial_generator =
     \<lparr>to_display = [], to_display_utf8_len = 0, needs_scrolling = False, display_offset = 0,
      is_playing = False,
      last_src = \<lparr>src_title = [], src_artist = [], src_art_url = []\<rparr>\<rparr>"

definition max_width :: nat where
  "max_width = 50"

definition seperator :: string where
  "seperator = '' ~ ''"

text \<open>The two ends of a status line: \<open>{"text":"\<close> and \<open>"}\<close> with a newline.\<close>

definition line_open :: string where
  "line_open = ''{'' @ [dquote] @ ''text'' @ [dquote] @ '':'' @ [dquote]"

definition line_close :: string where
  "line_close = [dquote] @ ''}'' @ [newline]"

definition display_print :: "string \<Rightarrow> out_msg" where
  "display_print v = Stdout (line_open @ v @ line_close)"

text \<open>
  The \<open>try\<close> block of \<open>update_cover_art\<close>: it stops at the first operation that
  throws. The result is the file system as the block leaves it, with the exception
  thrown or the lines written.
\<close>

definition cover_art_try ::
  "string \<Rightarrow> os_env \<Rightarrow> filesystem \<Rightarrow> filesystem \<times> (error + out_msg list)" where
  "cover_art_try url_arg env fs =
     (case symlink_status env fs of
        Inl e \<Rightarrow> (fs, Inl e)
      | Inr ty \<Rightarrow>
          (case (if ty \<noteq> not_found then remove_all env fs else Inr fs) of
             Inl e \<Rightarrow> (fs, Inl e)
           | Inr fs1 \<Rightarrow>
               (case (if starts_with url_arg ''file://''
                      then create_symlink env (drop 7 url_arg) fs1 else Inr fs1) of
                  Inl e \<Rightarrow> (fs1, Inl e)
                | Inr fs2 \<Rightarrow>
                    (fs2,
                     Inr (if system_ret env \<noteq> 0
                          then [Stderr (''Failed to send Waybar signal'' @ [newline])]
                          else [])))))"

text \<open>
  The failures that are C++ exceptions derived from \<open>std::exception\<close>, which
  \<open>catch (const std::exception& e)\<close> catches.
\<close>

fun is_std_exception :: "error \<Rightarrow> bool" where
  "is_std_exception (RuntimeError _) = True"
| "is_std_exception (FilesystemError _) = True"
| "is_std_exception OutOfRange = False"
| "is_std_exception (GLibCritical _) = False"

text \<open>
  \<open>update_cover_art\<close>: the assignment to \<open>last_src.art_url\<close>, the \<open>try\<close> block, and the
  \<open>catch\<close>, which writes the message to the standard error.
\<close>

definition update_cover_art ::
  "string \<Rightarrow> os_env \<Rightarrow> filesystem \<times> OutputGenerator
    \<Rightarrow> error + out_msg list \<times> filesystem \<times> OutputGenerator" where
  "update_cover_art url_arg env w =
     (let (fs, g) = w;
          g' = g\<lparr>last_src := (last_src g)\<lparr>src_art_url := url_arg\<rparr>\<rparr>;
          (fs', r) = cover_art_try url_arg env fs
      in case r of
           Inr outs \<Rightarrow> Inr (outs, fs', g')
         | Inl e \<Rightarrow>
             if is_std_exception e
             then Inr ([Stderr (''Error updating cover art: '' @ what e @ [newline])], fs', g')
             else Inl e)"

text \<open>
  The text to display, as the specification states it: the title, the separator when
  neither the title nor the artist is empty, and the artist.
\<close>

definition raw_text :: "string \<Rightarrow> string \<Rightarrow> string" where
  "raw_text ti ar = ti @ (if ti \<noteq> [] \<and> ar \<noteq> [] then '' ~ '' else []) @ ar"

text \<open>
  \<open>update_to_display\<close>; \<open>ti\<close> and \<open>ar\<close> are its arguments \<open>title\<close> and \<open>artist\<close>.
\<close>

definition update_to_display ::
  "string \<Rightarrow> string \<Rightarrow> OutputGenerator \<Rightarrow> error + OutputGenerator" where
  "update_to_display ti ar g =
     (let has_seperator = (ti \<noteq> [] \<and> ar \<noteq> [])
      in bind_err (g_utf8_strlen ti) (\<lambda>len_ti.
         bind_err (g_utf8_strlen ar) (\<lambda>len_ar.
           (let g1 = g\<lparr>to_display_utf8_len :=
                        len_ti + (if has_seperator then 3 else 0) + len_ar\<rparr>
            in if to_display_utf8_len g1 \<le> max_width
               then Inr (g1\<lparr>needs_scrolling := False,
                           to_display :=
                             encode ti @ (if has_seperator then '' ~ '' else []) @ encode ar\<rparr>)
               else Inr (g1\<lparr>needs_scrolling := True,
                           to_display :=
                             ti @ (if has_seperator then '' ~ '' else []) @ ar\<rparr>)))))"

text \<open>
  \<open>display\<close>: the line that it writes, and the generator, whose \<open>display_offset\<close> it
  resets once the separator has scrolled past.
\<close>

definition display :: "OutputGenerator \<Rightarrow> error + string \<times> OutputGenerator" where
  "display g =
     (let opening = line_open @ (if \<not> is_playing g then ''<i>'' else []);
          closing = (if \<not> is_playing g then ''</i>'' else []) @ line_close;
          buf = c_str (to_display g)
      in if \<not> needs_scrolling g then Inr (opening @ to_display g @ closing, g)
         else if display_offset g < to_display_utf8_len g
         then
           (let remaining = to_display_utf8_len g - display_offset g
            in if max_width \<le> remaining
               then
                 bind_err (utf8_substr (to_display g) (display_offset g) max_width) (\<lambda>v.
                   Inr (opening @ EscapedString v @ closing, g))
               else
                 bind_err (utf8_substr (to_display g) (display_offset g) remaining) (\<lambda>v.
                   (let left_over = max_width - remaining
                    in if left_over \<le> 3
                       then Inr (opening @ EscapedString v
                                   @ EscapedString (take left_over seperator) @ closing, g)
                       else
                         bind_err (g_utf8_offset_to_pointer buf 0 (left_over - 3)) (\<lambda>e.
                         bind_err (string_view buf 0 e) (\<lambda>v'.
                           Inr (opening @ EscapedString v @ '' ~ '' @ EscapedString v'
                                  @ closing, g))))))
         else
           (let sperator_offset = display_offset g - to_display_utf8_len g
            in if 2 < sperator_offset
               then
                 bind_err (g_utf8_offset_to_pointer buf 0 max_width) (\<lambda>e.
                 bind_err (string_view buf 0 e) (\<lambda>v.
                   Inr (opening @ EscapedString v @ closing, g\<lparr>display_offset := 0\<rparr>)))
               else
                 (let seperator_size = 3 - sperator_offset
                  in bind_err (g_utf8_offset_to_pointer buf 0 (max_width - seperator_size)) (\<lambda>e.
                     bind_err (string_view buf 0 e) (\<lambda>v.
                       Inr (opening @ take seperator_size (drop sperator_offset seperator)
                              @ EscapedString v @ closing, g))))))"

text \<open>\<open>scoll\<close>, the reaction to a tick of the timer.\<close>

definition scoll :: "OutputGenerator \<Rightarrow> error + out_msg list \<times> OutputGenerator" where
  "scoll g =
     (if \<not> needs_scrolling g then Inr ([], g)
      else bind_err (display (g\<lparr>display_offset := display_offset g + 1\<rparr>)) (\<lambda>(line, g').
             Inr ([Stdout line], g')))"

text \<open>
  \<open>on_update_seleceted\<close>. The file system and the generator are the state; \<open>env\<close> is
  how the system answers during this call.
\<close>

definition on_update_seleceted ::
  "Player \<Rightarrow> os_env \<Rightarrow> filesystem \<times> OutputGenerator
    \<Rightarrow> error + out_msg list \<times> filesystem \<times> OutputGenerator" where
  "on_update_seleceted player env w =
     (let (fs, g) = w;
          ti = title (metadata (state player));
          ar = artist (metadata (state player));
          au = art_url (metadata (state player));
          new_is_playing = (playback_status (state player) = PLAYERCTL_PLAYBACK_STATUS_PLAYING)
      in bind_err (if au \<noteq> src_art_url (last_src g)
                   then update_cover_art au env (fs, g) else Inr ([], fs, g))
           (\<lambda>(outs, fs1, g1).
              if src_title (last_src g1) = ti \<and> src_artist (last_src g1) = ar
              then
                (if is_playing g1 \<noteq> new_is_playing
                 then bind_err (display (g1\<lparr>is_playing := new_is_playing\<rparr>)) (\<lambda>(line, g2).
                        Inr (outs @ [Stdout line], fs1, g2))
                 else Inr (outs, fs1, g1))
              else
                bind_err
                  (update_to_display ti ar
                     (g1\<lparr>display_offset := 0,
                         last_src := (last_src g1)\<lparr>src_title := ti, src_artist := ar\<rparr>\<rparr>))
                  (\<lambda>g2.
                     bind_err (display (g2\<lparr>is_playing := new_is_playing\<rparr>)) (\<lambda>(line, g3).
                       Inr (outs @ [Stdout line], fs1, g3)))))"

text \<open>The three functions of the handler.\<close>

definition on_select ::
  "Player \<Rightarrow> os_env \<Rightarrow> filesystem \<times> OutputGenerator
    \<Rightarrow> error + out_msg list \<times> filesystem \<times> OutputGenerator" where
  "on_select player env w = on_update_seleceted player env w"

definition on_empty :: "OutputGenerator \<Rightarrow> out_msg list \<times> OutputGenerator" where
  "on_empty g = ([display_print []], g\<lparr>needs_scrolling := False\<rparr>)"

definition on_state ::
  "Player \<Rightarrow> os_env \<Rightarrow> filesystem \<times> OutputGenerator
    \<Rightarrow> error + out_msg list \<times> filesystem \<times> OutputGenerator" where
  "on_state player env w =
     (if \<not> is_selected player then Inr ([], fst w, snd w)
      else on_update_seleceted player env w)"

text \<open>
  A number of ticks in a row: the lines written, in order, and the generator after
  the last one.
\<close>

fun ticks :: "nat \<Rightarrow> OutputGenerator \<Rightarrow> error + out_msg list \<times> OutputGenerator" where
  "ticks 0 g = Inr ([], g)"
| "ticks (Suc n) g =
     bind_err (scoll g) (\<lambda>(outs, g').
     bind_err (ticks n g') (\<lambda>(outs', g'').
       Inr (outs @ outs', g'')))"

declare g_utf8_strlen_loop.simps [simp del]

declare escaped_loop.simps [simp del]

text \<open>
  The generator has last rendered the content of a player: the title and the artist
  of the player are those of \<open>last_src\<close>, and \<open>is_playing\<close> says whether the player is
  playing.
\<close>

definition last_rendered :: "OutputGenerator \<Rightarrow> Player \<Rightarrow> bool" where
  "last_rendered g p =
     (src_title (last_src g) = title (metadata (state p))
      \<and> src_artist (last_src g) = artist (metadata (state p))
      \<and> is_playing g = (playback_status (state p) = PLAYERCTL_PLAYBACK_STATUS_PLAYING))"

section \<open>Sample values\<close>

text \<open>Concrete names, states and players, on which the theorems are instantiated.\<close>

definition demo_name :: "string \<Rightarrow> PlayerctlPlayerName" where
  "demo_name n = \<lparr>pn_name = n, pn_instance = n, pn_source = PLAYERCTL_SOURCE_DBUS_SESSION\<rparr>"

definition demo_state :: "string \<Rightarrow> string \<Rightarrow> PlayerctlPlaybackStatus \<Rightarrow> Player_State" where
  "demo_state t a s =
     \<lparr>metadata = \<lparr>mlength = 0, trackid = [], title = t, album = [], artist = a,
                   art_url = [], url = []\<rparr>,
      loop_status = PLAYERCTL_LOOP_STATUS_NONE, playback_status = s, volume = 1,
      seeked_to = 0, shuffle = False\<rparr>"

definition demo_player :: "string \<Rightarrow> bool \<Rightarrow> Player" where
  "demo_player n sel =
     \<lparr>uid = \<lparr>uid_name = n, uid_source = PLAYERCTL_SOURCE_DBUS_SESSION\<rparr>,
      state = demo_state ''Song'' ''Artist'' PLAYERCTL_PLAYBACK_STATUS_PLAYING,
      is_selected = sel\<rparr>"

definition demo_raw :: string where
  "demo_raw =
     ''Beethoven ~ F'' @ [CHR 0xC3, CHR 0xBC] @ ''r Elise <Bagatelle No. 25 in A minor>''"

definition demo_scrolling :: OutputGenerator where
  "demo_scrolling =
     \<lparr>to_display = demo_raw, to_display_utf8_len = 51, needs_scrolling = True,
      display_offset = 0, is_playing = True,
      last_src =
        \<lparr>src_title = ''Beethoven'',
         src_artist =
           ''F'' @ [CHR 0xC3, CHR 0xBC] @ ''r Elise <Bagatelle No. 25 in A minor>'',
         src_art_url = []\<rparr>\<rparr>"

definition demo_env :: os_env where
  "demo_env =
     \<lparr>symlink_status_fails = False, remove_all_fails = False, create_symlink_fails = False,
      system_ret = 0\<rparr>"

section \<open>Properties of the encoder\<close>

lemmas special_chars =
  dquote_def apostrophe_def newline_def tab_def carriage_return_def backslash_def

lemma encode_char_cases:
  "encode_char c =
     (if c = CHR ''&'' then ''&amp;''
      else if c = dquote then ''&quot;''
      else if c = apostrophe then ''&apos;''
      else if c = CHR ''<'' then ''&lt;''
      else if c = CHR ''>'' then ''&gt;''
      else if c = newline then [backslash, CHR ''n'']
      else if c = tab then [backslash, CHR ''t'']
      else if c = carriage_return then [backslash, CHR ''r'']
      else [c])"
  by (simp add: encode_char_def escaped_chars_def escape_of_def)

lemma encode_loop_acc: "encode_loop str buffer = buffer @ concat (map encode_char str)"
  by (induction str arbitrary: buffer) (simp_all add: encode_char_cases)

lemma encode_concat: "encode str = concat (map encode_char str)"
  by (simp add: encode_def encode_loop_acc)

lemma encode_append: "encode (a @ b) = encode a @ encode b"
  by (simp add: encode_concat)

lemma encode_char_safe: "c \<notin> escaped_chars \<Longrightarrow> encode_char c = [c]"
  by (simp add: encode_char_def)

lemma encode_safe: "set s \<inter> escaped_chars = {} \<Longrightarrow> encode s = s"
  by (induction s) (simp_all add: encode_concat encode_char_safe)

lemma encode_Nil: "encode [] = []"
  by (simp add: encode_concat)

lemma encode_Cons: "encode (c # s) = encode_char c @ encode s"
  by (simp add: encode_concat)

text \<open>
  C7. \<open>encode\<close> replaces every byte on its own: the result is the concatenation of
  the images of the bytes, where the image of \<open>&\<close> is \<open>&amp;\<close>, of the double quote
  \<open>&quot;\<close>, of the apostrophe \<open>&apos;\<close>, of \<open><\<close> \<open>&lt;\<close>, of \<open>>\<close> \<open>&gt;\<close>, of
  newline, tab and carriage return a backslash followed by \<open>n\<close>, \<open>t\<close> and \<open>r\<close>, and
  of any other byte the byte itself. The string \<open><a>&\<close> followed by an apostrophe and
  a double quote is encoded as \<open>&lt;a&gt;&amp;&apos;&quot;\<close>, and a string with none
  of the eight escaped bytes is left unchanged.
\<close>

theorem encode_correct:
  "encode str = concat (map encode_char str)
   \<and> encode_char (CHR ''&'') = ''&amp;''
   \<and> encode_char dquote = ''&quot;''
   \<and> encode_char apostrophe = ''&apos;''
   \<and> encode_char (CHR ''<'') = ''&lt;''
   \<and> encode_char (CHR ''>'') = ''&gt;''
   \<and> encode_char newline = [backslash, CHR ''n'']
   \<and> encode_char tab = [backslash, CHR ''t'']
   \<and> encode_char carriage_return = [backslash, CHR ''r'']
   \<and> (\<forall>c. c \<notin> escaped_chars \<longrightarrow> encode_char c = [c])
   \<and> encode (''<a>&'' @ [apostrophe, dquote]) = ''&lt;a&gt;&amp;&apos;&quot;''
   \<and> (set str \<inter> escaped_chars = {} \<longrightarrow> encode str = str)"
proof (intro conjI)
  show "encode str = concat (map encode_char str)"
    by (rule encode_concat)
  show "encode_char (CHR ''&'') = ''&amp;''"
    by (simp add: encode_char_cases)
  show "encode_char dquote = ''&quot;''"
    by (simp add: encode_char_cases special_chars)
  show "encode_char apostrophe = ''&apos;''"
    by (simp add: encode_char_cases special_chars)
  show "encode_char (CHR ''<'') = ''&lt;''"
    by (simp add: encode_char_cases special_chars)
  show "encode_char (CHR ''>'') = ''&gt;''"
    by (simp add: encode_char_cases special_chars)
  show "encode_char newline = [backslash, CHR ''n'']"
    by (simp add: encode_char_cases special_chars)
  show "encode_char tab = [backslash, CHR ''t'']"
    by (simp add: encode_char_cases special_chars)
  show "encode_char carriage_return = [backslash, CHR ''r'']"
    by (simp add: encode_char_cases special_chars)
  show "\<forall>c. c \<notin> escaped_chars \<longrightarrow> encode_char c = [c]"
    by (simp add: encode_char_safe)
  show "encode (''<a>&'' @ [apostrophe, dquote]) = ''&lt;a&gt;&amp;&apos;&quot;''"
    by (simp add: encode_Cons encode_Nil encode_char_cases special_chars)
  show "set str \<inter> escaped_chars = {} \<longrightarrow> encode str = str"
    by (simp add: encode_safe)
qed

theorem encode_correct_witness:
  "encode ''Song ~ Artist'' = ''Song ~ Artist''
   \<and> encode ''R&B <live>'' = ''R&amp;B &lt;live&gt;''"
proof
  have "set ''Song ~ Artist'' \<inter> escaped_chars = {}"
    by (simp add: escaped_chars_def special_chars)
  with encode_correct [of "''Song ~ Artist''"]
  show "encode ''Song ~ Artist'' = ''Song ~ Artist''"
    by (elim conjE) (erule mp)
  from encode_correct [of "''R&B <live>''"]
  have "encode ''R&B <live>'' = concat (map encode_char ''R&B <live>'')"
    by (elim conjE)
  then show "encode ''R&B <live>'' = ''R&amp;B &lt;live&gt;''"
    by (simp add: encode_char_cases special_chars)
qed

section \<open>Properties of the registry\<close>

subsection \<open>The invariant\<close>

lemma NON_IDX_pos: "NON_IDX \<noteq> 0"
  by (simp add: NON_IDX_def)

lemma find_if_le: "find_if P xs \<le> length xs"
  by (induction xs) simp_all

lemma erase_0: "erase 0 (x # xs) = xs"
  by (simp add: erase_def)

lemma erase_Suc: "erase (Suc i) (x # xs) = x # erase i xs"
  by (simp add: erase_def)

lemma list_all_erase: "list_all P xs \<Longrightarrow> list_all P (erase i xs)"
  by (auto simp: erase_def list_all_iff dest: in_set_takeD in_set_dropD)

lemma select_eq: "select p = ([OnSelect (p\<lparr>is_selected := True\<rparr>)], p\<lparr>is_selected := True\<rparr>)"
  by (simp add: select_def Let_def)

lemma inv_initial: "manager_inv initial_manager"
  by (simp add: manager_inv_def initial_manager_def)

lemma inv_add:
  assumes "manager_inv m" and "add_player_by_name name created m = Inr (evs, m')"
  shows "manager_inv m'"
proof (cases "managed_players m")
  case Nil
  with assms show ?thesis
    by (auto simp: manager_inv_def add_player_by_name_def select_eq Let_def
        split: if_splits sum.splits)
next
  case (Cons p ps)
  with assms show ?thesis
    by (auto simp: manager_inv_def add_player_by_name_def select_eq Let_def NON_IDX_pos
        split: if_splits sum.splits)
qed

lemma inv_vanish:
  assumes "manager_inv m" and "on_name_vanished name m = Inr (evs, m')"
  shows "manager_inv m'"
proof (cases "managed_players m")
  case Nil
  with assms show ?thesis
    by (simp add: on_name_vanished_def)
next
  case (Cons p ps)
  define entry where
    "entry = find_if (\<lambda>q. uid_eq (uid q) \<lparr>uid_name = pn_instance name, uid_source = pn_source name\<rparr>)
       (managed_players m)"
  from assms(1) Cons have sel: "selected_idx m = 0" "is_selected p"
    "list_all (\<lambda>q. \<not> is_selected q) ps"
    by (simp_all add: manager_inv_def)
  have le: "entry \<le> length (managed_players m)"
    unfolding entry_def by (rule find_if_le)
  show ?thesis
  proof (cases entry)
    case 0
    with assms(2) Cons sel entry_def show ?thesis
      by (cases ps)
        (auto simp: on_name_vanished_def Let_def erase_0 select_eq manager_inv_def
          split: if_splits)
  next
    case (Suc k)
    show ?thesis
    proof (cases "entry = length (managed_players m)")
      case True
      with assms entry_def show ?thesis
        by (simp add: on_name_vanished_def Let_def)
    next
      case False
      with le Suc Cons have k: "k < length ps"
        by simp
      with sel(3) have nk: "\<not> is_selected (ps ! k)"
        by (simp add: list_all_length)
      from sel(3) have "list_all (\<lambda>q. \<not> is_selected q) (erase k ps)"
        by (rule list_all_erase)
      with assms(2) False Suc Cons sel nk entry_def [symmetric] show ?thesis
        by (auto simp: on_name_vanished_def Let_def erase_Suc select_eq manager_inv_def)
    qed
  qed
qed

lemma inv_state_changed:
  assumes "manager_inv m" and "i < length (managed_players m)"
  shows "manager_inv (m\<lparr>managed_players :=
                         (managed_players m)[i := (managed_players m ! i)\<lparr>state := st\<rparr>]\<rparr>)"
proof (cases "managed_players m")
  case Nil
  with assms(2) show ?thesis
    by simp
next
  case (Cons p ps)
  show ?thesis
  proof (cases i)
    case 0
    with assms(1) Cons show ?thesis
      by (simp add: manager_inv_def)
  next
    case (Suc k)
    with assms Cons show ?thesis
      by (auto simp: manager_inv_def list_all_length nth_list_update)
  qed
qed

lemma reachable_inv: "reachable m \<Longrightarrow> manager_inv m"
  by (induction rule: reachable.induct)
     (auto intro: inv_initial inv_add inv_vanish inv_state_changed)

subsection \<open>A reachable state with two players\<close>

lemma demo_add:
  "add_player_by_name (demo_name ''A'')
     (Inr (demo_state ''Song'' ''Artist'' PLAYERCTL_PLAYBACK_STATUS_PLAYING)) initial_manager
   = Inr ([OnSelect (demo_player ''A'' True)],
       \<lparr>managed_players = [demo_player ''A'' True], selected_idx = 0\<rparr>)"
  by (simp add: add_player_by_name_def initial_manager_def select_eq demo_name_def
      demo_player_def Let_def)

lemma demo_add2:
  "add_player_by_name (demo_name ''B'')
     (Inr (demo_state ''Song'' ''Artist'' PLAYERCTL_PLAYBACK_STATUS_PLAYING))
     \<lparr>managed_players = [demo_player ''A'' True], selected_idx = 0\<rparr>
   = Inr ([], \<lparr>managed_players = [demo_player ''A'' True, demo_player ''B'' False],
                selected_idx = 0\<rparr>)"
  by (simp add: add_player_by_name_def select_eq demo_name_def demo_player_def uid_eq_def
      NON_IDX_def Let_def)

lemma demo_reachable:
  "reachable \<lparr>managed_players = [demo_player ''A'' True, demo_player ''B'' False],
                selected_idx = 0\<rparr>"
  by (rule reachable.appeared [OF reachable.appeared [OF reachable.initial demo_add] demo_add2])

lemma demo_vanish_B:
  "on_name_vanished (demo_name ''B'')
     \<lparr>managed_players = [demo_player ''A'' True, demo_player ''B'' False], selected_idx = 0\<rparr>
   = Inr ([OnSelect (demo_player ''A'' True)],
       \<lparr>managed_players = [demo_player ''A'' True], selected_idx = 0\<rparr>)"
  by (simp add: on_name_vanished_def select_eq demo_name_def demo_player_def uid_eq_def
      erase_def Let_def)

lemma demo_vanish_A:
  "on_name_vanished (demo_name ''A'')
     \<lparr>managed_players = [demo_player ''A'' True, demo_player ''B'' False], selected_idx = 0\<rparr>
   = Inr ([OnSelect (demo_player ''B'' True)],
       \<lparr>managed_players = [demo_player ''B'' True], selected_idx = 0\<rparr>)"
  by (simp add: on_name_vanished_def select_eq demo_name_def demo_player_def uid_eq_def
      erase_def Let_def)

subsection \<open>Selection and index\<close>

lemma inv_count: "manager_inv m \<Longrightarrow> selected_count m = (if managed_players m = [] then 0 else 1)"
  by (cases "managed_players m")
     (simp_all add: manager_inv_def selected_count_def list_all_iff filter_empty_conv [THEN iffD2])

text \<open>
  C1. In every reachable registry state exactly one player has \<open>is_selected\<close> set
  when the sequence of managed players is not empty, and none when it is empty; the
  same holds of the state after every \<open>add_player_by_name\<close> and after every
  \<open>on_name_vanished\<close> that returns from such a state.
\<close>

theorem selection_invariant:
  "reachable m \<Longrightarrow>
     selected_count m = (if managed_players m = [] then 0 else 1)
     \<and> (\<forall>name created evs m'. add_player_by_name name created m = Inr (evs, m')
           \<longrightarrow> selected_count m' = (if managed_players m' = [] then 0 else 1))
     \<and> (\<forall>name evs m'. on_name_vanished name m = Inr (evs, m')
           \<longrightarrow> selected_count m' = (if managed_players m' = [] then 0 else 1))"
proof (intro conjI allI impI)
  assume r: "reachable m"
  then show "selected_count m = (if managed_players m = [] then 0 else 1)"
    by (simp add: reachable_inv inv_count)
  fix name created evs m'
  assume "add_player_by_name name created m = Inr (evs, m')"
  with r have "reachable m'"
    by (rule reachable.appeared)
  then show "selected_count m' = (if managed_players m' = [] then 0 else 1)"
    by (simp add: reachable_inv inv_count)
next
  assume r: "reachable m"
  fix name evs m'
  assume "on_name_vanished name m = Inr (evs, m')"
  with r have "reachable m'"
    by (rule reachable.vanished)
  then show "selected_count m' = (if managed_players m' = [] then 0 else 1)"
    by (simp add: reachable_inv inv_count)
qed

theorem selection_invariant_witness:
  "reachable \<lparr>managed_players = [demo_player ''A'' True, demo_player ''B'' False],
                selected_idx = 0\<rparr>
   \<and> selected_count \<lparr>managed_players = [demo_player ''A'' True, demo_player ''B'' False],
                      selected_idx = 0\<rparr> = 1
   \<and> selected_count \<lparr>managed_players = [demo_player ''B'' True], selected_idx = 0\<rparr> = 1"
proof -
  note inv = selection_invariant [OF demo_reachable]
  from inv
  have "selected_count \<lparr>managed_players = [demo_player ''A'' True, demo_player ''B'' False],
                         selected_idx = 0\<rparr> = 1"
    by simp
  moreover from inv demo_vanish_A
  have "selected_count \<lparr>managed_players = [demo_player ''B'' True], selected_idx = 0\<rparr> = 1"
    by (elim conjE allE [where x = "demo_name ''A''"]) simp
  ultimately show ?thesis
    using demo_reachable by simp
qed

lemma inv_bounds:
  "manager_inv m \<Longrightarrow>
     (selected_idx m = NON_IDX \<longleftrightarrow> managed_players m = [])
     \<and> (selected_idx m \<noteq> NON_IDX \<longrightarrow> selected_idx m < length (managed_players m))"
  by (cases "managed_players m") (auto simp: manager_inv_def NON_IDX_pos)

lemma inv_selected_player: "manager_inv m \<Longrightarrow> \<exists>r. selected_player m = Inr r"
  by (cases "managed_players m") (simp_all add: manager_inv_def selected_player_def NON_IDX_pos)

lemma inv_vanish_returns:
  assumes "manager_inv m"
  shows "\<exists>r. on_name_vanished name m = Inr r"
proof (cases "managed_players m")
  case Nil
  then show ?thesis
    by (simp add: on_name_vanished_def)
next
  case (Cons p ps)
  define entry where
    "entry = find_if (\<lambda>q. uid_eq (uid q) \<lparr>uid_name = pn_instance name, uid_source = pn_source name\<rparr>)
       (managed_players m)"
  from assms Cons have sel: "selected_idx m = 0" "is_selected p"
    "list_all (\<lambda>q. \<not> is_selected q) ps"
    by (simp_all add: manager_inv_def)
  have le: "entry \<le> length (managed_players m)"
    unfolding entry_def by (rule find_if_le)
  show ?thesis
  proof (cases entry)
    case 0
    with Cons sel entry_def [symmetric] show ?thesis
      by (cases ps) (simp_all add: on_name_vanished_def Let_def erase_0 select_eq)
  next
    case (Suc k)
    show ?thesis
    proof (cases "entry = length (managed_players m)")
      case True
      with entry_def [symmetric] show ?thesis
        by (simp add: on_name_vanished_def Let_def)
    next
      case False
      with le Suc Cons have k: "k < length ps"
        by simp
      with sel(3) have nk: "\<not> is_selected (ps ! k)"
        by (simp add: list_all_length)
      with False Suc Cons sel entry_def [symmetric] show ?thesis
        by (simp add: on_name_vanished_def Let_def erase_Suc select_eq)
    qed
  qed
qed

text \<open>
  C9. In every reachable registry state \<open>selected_idx\<close> is \<open>NON_IDX\<close> exactly when
  the registry is empty, and is otherwise an index below the number of managed
  players; hence \<open>selected_player\<close> and the access \<open>managed_players[selected_idx]\<close> at
  the end of \<open>on_name_vanished\<close> never read outside the vector.
\<close>

theorem index_validity:
  "reachable m \<Longrightarrow>
     (selected_idx m = NON_IDX \<longleftrightarrow> managed_players m = [])
     \<and> (selected_idx m \<noteq> NON_IDX \<longrightarrow> selected_idx m < length (managed_players m))
     \<and> (\<exists>r. selected_player m = Inr r)
     \<and> (\<forall>name. \<exists>r. on_name_vanished name m = Inr r)"
proof -
  assume "reachable m"
  then have inv: "manager_inv m"
    by (rule reachable_inv)
  from inv_bounds [OF inv] inv_selected_player [OF inv] inv_vanish_returns [OF inv]
  show ?thesis
    by blast
qed

theorem index_validity_witness:
  "selected_idx \<lparr>managed_players = [demo_player ''A'' True, demo_player ''B'' False],
                  selected_idx = 0\<rparr>
     < length (managed_players
         \<lparr>managed_players = [demo_player ''A'' True, demo_player ''B'' False],
            selected_idx = 0\<rparr>)
   \<and> (\<exists>r. selected_player
         \<lparr>managed_players = [demo_player ''A'' True, demo_player ''B'' False],
            selected_idx = 0\<rparr> = Inr r)
   \<and> (\<exists>r. on_name_vanished (demo_name ''B'')
         \<lparr>managed_players = [demo_player ''A'' True, demo_player ''B'' False],
            selected_idx = 0\<rparr> = Inr r)"
proof -
  have "selected_idx \<lparr>managed_players = [demo_player ''A'' True, demo_player ''B'' False],
                  selected_idx = 0\<rparr> \<noteq> NON_IDX"
    by (simp add: NON_IDX_pos [symmetric])
  with index_validity [OF demo_reachable] show ?thesis
    by blast
qed

subsection \<open>Removal of a session\<close>

text \<open>
  C2, as stated, fails. With players A (selected) and B managed, a state that two
  calls of \<open>add_player_by_name\<close> reach, the removal of B, which is present and not
  selected, calls \<open>on_select\<close> with A.
\<close>

theorem unselected_removal_counterexample:
  "reachable \<lparr>managed_players = [demo_player ''A'' True, demo_player ''B'' False],
               selected_idx = 0\<rparr>
   \<and> find_if (\<lambda>p. uid_eq (uid p)
         \<lparr>uid_name = pn_instance (demo_name ''B''), uid_source = pn_source (demo_name ''B'')\<rparr>)
       [demo_player ''A'' True, demo_player ''B'' False] = 1
   \<and> \<not> is_selected ([demo_player ''A'' True, demo_player ''B'' False] ! 1)
   \<and> on_name_vanished (demo_name ''B'')
         \<lparr>managed_players = [demo_player ''A'' True, demo_player ''B'' False],
            selected_idx = 0\<rparr>
       = Inr ([OnSelect (demo_player ''A'' True)],
           \<lparr>managed_players = [demo_player ''A'' True], selected_idx = 0\<rparr>)"
  using demo_reachable demo_vanish_B
  by (simp add: demo_name_def demo_player_def uid_eq_def)

text \<open>
  C2, amended. In every reachable registry state, the removal of a session that is
  present and not selected changes no \<open>is_selected\<close> flag and does not recompute
  \<open>selected_idx\<close>: the only change of the registry is the removal of that one entry.
  The player at \<open>selected_idx\<close>, which is the selected one before and after, is
  selected again, so the handler's \<open>on_select\<close> is called once, with that player.
\<close>

theorem unselected_removal:
  assumes "reachable m"
    and "entry = find_if (\<lambda>p. uid_eq (uid p)
           \<lparr>uid_name = pn_instance name, uid_source = pn_source name\<rparr>) (managed_players m)"
    and "entry < length (managed_players m)"
    and "\<not> is_selected (managed_players m ! entry)"
  shows "on_name_vanished name m
         = Inr ([OnSelect (managed_players m ! selected_idx m)],
             m\<lparr>managed_players := erase entry (managed_players m)\<rparr>)
       \<and> selected_idx m < length (erase entry (managed_players m))
       \<and> erase entry (managed_players m) ! selected_idx m = managed_players m ! selected_idx m
       \<and> is_selected (managed_players m ! selected_idx m)"
proof -
  from assms(1) have inv: "manager_inv m"
    by (rule reachable_inv)
  from assms(3) obtain p ps where Cons: "managed_players m = p # ps"
    by (cases "managed_players m") auto
  from inv Cons have sel: "selected_idx m = 0" "is_selected p"
    by (simp_all add: manager_inv_def)
  from assms(4) Cons sel obtain k where k: "entry = Suc k"
    by (cases entry) auto
  with assms(3) Cons have klen: "k < length ps"
    by simp
  from assms(2) k Cons
  have fi: "find_if (\<lambda>p. uid_eq (uid p)
           \<lparr>uid_name = pn_instance name, uid_source = pn_source name\<rparr>) (p # ps) = Suc k"
    by simp
  from assms(4) k Cons have nsel: "\<not> is_selected (ps ! k)"
    by simp
  have psel: "p\<lparr>is_selected := True\<rparr> = p"
    using sel(2) by simp
  have m_eq: "\<lparr>managed_players = p # erase k ps, selected_idx = 0\<rparr>
      = m\<lparr>managed_players := p # erase k ps\<rparr>"
    using sel(1) by simp
  have "on_name_vanished name m
         = Inr ([OnSelect p], m\<lparr>managed_players := p # erase k ps\<rparr>)"
    using fi klen nsel psel m_eq
    by (simp add: on_name_vanished_def Let_def Cons sel(1) erase_Suc select_eq
        del: find_if.simps)
  with k Cons sel show ?thesis
    by (simp add: erase_Suc)
qed


theorem unselected_removal_witness:
  "on_name_vanished (demo_name ''B'')
     \<lparr>managed_players = [demo_player ''A'' True, demo_player ''B'' False], selected_idx = 0\<rparr>
   = Inr ([OnSelect (demo_player ''A'' True)],
       \<lparr>managed_players = [demo_player ''A'' True], selected_idx = 0\<rparr>)
   \<and> is_selected (demo_player ''A'' True)"
proof -
  have e: "(1::nat) = find_if (\<lambda>p. uid_eq (uid p)
       \<lparr>uid_name = pn_instance (demo_name ''B''), uid_source = pn_source (demo_name ''B'')\<rparr>)
     (managed_players
       \<lparr>managed_players = [demo_player ''A'' True, demo_player ''B'' False],
          selected_idx = 0\<rparr>)"
    by (simp add: demo_name_def demo_player_def uid_eq_def)
  from unselected_removal [OF demo_reachable e] show ?thesis
    by (simp add: erase_def demo_player_def)
qed

lemma find_if_last:
  "list_all (\<lambda>p. \<not> P p) ps \<Longrightarrow> P l \<Longrightarrow> find_if P (ps @ [l]) = length ps"
  by (induction ps) simp_all

lemma erase_last: "erase (length ps) (ps @ [l]) = ps"
  by (simp add: erase_def)

text \<open>
  C3. From the registry \<open>[a, b, c]\<close> with \<open>b\<close> selected (at index 1), the removal of
  \<open>b\<close> leaves \<open>[a, c]\<close> with \<open>c\<close> selected, and calls \<open>on_select\<close> with \<open>c\<close>. From a
  registry whose selected session is the last one, and which holds another session,
  the removal of the selected session selects the first remaining one:
  \<open>selected_idx\<close> becomes 0 and \<open>on_select\<close> is called with that session.
\<close>

theorem reselection_on_vanish:
  "(\<not> uid_eq (uid a) (uid b) \<and> is_selected b
      \<and> uid b = \<lparr>uid_name = pn_instance name, uid_source = pn_source name\<rparr>
    \<longrightarrow> on_name_vanished name \<lparr>managed_players = [a, b, c], selected_idx = 1\<rparr>
        = Inr ([OnSelect (c\<lparr>is_selected := True\<rparr>)],
            \<lparr>managed_players = [a, c\<lparr>is_selected := True\<rparr>], selected_idx = 1\<rparr>))
   \<and> (ps \<noteq> [] \<and> is_selected l
        \<and> uid l = \<lparr>uid_name = pn_instance name', uid_source = pn_source name'\<rparr>
        \<and> list_all (\<lambda>p. \<not> uid_eq (uid p) (uid l)) ps
      \<longrightarrow> on_name_vanished name' \<lparr>managed_players = ps @ [l], selected_idx = length ps\<rparr>
          = Inr ([OnSelect ((hd ps)\<lparr>is_selected := True\<rparr>)],
              \<lparr>managed_players = (hd ps)\<lparr>is_selected := True\<rparr> # tl ps, selected_idx = 0\<rparr>))"
proof (intro conjI impI; elim conjE)
  assume ab: "\<not> uid_eq (uid a) (uid b)" and b: "is_selected b"
    and ub: "uid b = \<lparr>uid_name = pn_instance name, uid_source = pn_source name\<rparr>"
  from ub have u: "\<lparr>uid_name = pn_instance name, uid_source = pn_source name\<rparr> = uid b"
    by (rule sym)
  have bb: "uid_eq (uid b) (uid b)"
    by (simp add: uid_eq_def)
  show "on_name_vanished name \<lparr>managed_players = [a, b, c], selected_idx = 1\<rparr>
        = Inr ([OnSelect (c\<lparr>is_selected := True\<rparr>)],
            \<lparr>managed_players = [a, c\<lparr>is_selected := True\<rparr>], selected_idx = 1\<rparr>)"
    using ab b bb by (simp add: on_name_vanished_def Let_def u erase_def select_eq)
next
  assume ne: "ps \<noteq> []" and l: "is_selected l"
    and others: "list_all (\<lambda>p. \<not> uid_eq (uid p) (uid l)) ps"
    and ul: "uid l = \<lparr>uid_name = pn_instance name', uid_source = pn_source name'\<rparr>"
  from ul have u: "\<lparr>uid_name = pn_instance name', uid_source = pn_source name'\<rparr> = uid l"
    by (rule sym)
  have "uid_eq (uid l) (uid l)"
    by (simp add: uid_eq_def)
  with others have fi: "find_if (\<lambda>p. uid_eq (uid p) (uid l)) (ps @ [l]) = length ps"
    by (rule find_if_last)
  from ne obtain q qs where ps: "ps = q # qs"
    by (cases ps) auto
  have "on_name_vanished name' \<lparr>managed_players = ps @ [l], selected_idx = length ps\<rparr>
          = Inr ([OnSelect (q\<lparr>is_selected := True\<rparr>)],
              \<lparr>managed_players = q\<lparr>is_selected := True\<rparr> # qs, selected_idx = 0\<rparr>)"
    using l by (simp add: on_name_vanished_def Let_def u fi erase_last select_eq nth_append)
       (simp add: ps)
  then show "on_name_vanished name' \<lparr>managed_players = ps @ [l], selected_idx = length ps\<rparr>
          = Inr ([OnSelect ((hd ps)\<lparr>is_selected := True\<rparr>)],
              \<lparr>managed_players = (hd ps)\<lparr>is_selected := True\<rparr> # tl ps, selected_idx = 0\<rparr>)"
    by (simp add: ps)
qed

theorem reselection_on_vanish_witness:
  "on_name_vanished (demo_name ''B'')
     \<lparr>managed_players = [demo_player ''A'' False, demo_player ''B'' True, demo_player ''C'' False],
        selected_idx = 1\<rparr>
   = Inr ([OnSelect (demo_player ''C'' True)],
       \<lparr>managed_players = [demo_player ''A'' False, demo_player ''C'' True], selected_idx = 1\<rparr>)
   \<and> on_name_vanished (demo_name ''C'')
     \<lparr>managed_players = [demo_player ''A'' False, demo_player ''B'' False, demo_player ''C'' True],
        selected_idx = 2\<rparr>
   = Inr ([OnSelect (demo_player ''A'' True)],
       \<lparr>managed_players = [demo_player ''A'' True, demo_player ''B'' False], selected_idx = 0\<rparr>)"
proof -
  have h1: "\<not> uid_eq (uid (demo_player ''A'' False)) (uid (demo_player ''B'' True))
      \<and> is_selected (demo_player ''B'' True)
      \<and> uid (demo_player ''B'' True)
        = \<lparr>uid_name = pn_instance (demo_name ''B''), uid_source = pn_source (demo_name ''B'')\<rparr>"
    by (simp add: demo_player_def demo_name_def uid_eq_def)
  have h2: "[demo_player ''A'' False, demo_player ''B'' False] \<noteq> []
      \<and> is_selected (demo_player ''C'' True)
      \<and> uid (demo_player ''C'' True)
        = \<lparr>uid_name = pn_instance (demo_name ''C''), uid_source = pn_source (demo_name ''C'')\<rparr>
      \<and> list_all (\<lambda>p. \<not> uid_eq (uid p) (uid (demo_player ''C'' True)))
          [demo_player ''A'' False, demo_player ''B'' False]"
    by (simp add: demo_player_def demo_name_def uid_eq_def)
  note inst = reselection_on_vanish [of "demo_player ''A'' False" "demo_player ''B'' True"
      "demo_name ''B''" "demo_player ''C'' False"
      "[demo_player ''A'' False, demo_player ''B'' False]" "demo_player ''C'' True"
      "demo_name ''C''"]
  from inst [THEN conjunct1, THEN mp, OF h1] inst [THEN conjunct2, THEN mp, OF h2]
  show ?thesis
    by (simp add: demo_player_def numeral_2_eq_2)
qed

section \<open>Properties of the metadata parser\<close>

lemma str_array_absent:
  "g_variant_lookup_value md key G_VARIANT_TYPE_STRING_ARRAY = None \<Longrightarrow>
   metadata_get_str_array_value md key = Inl (GLibCritical ''g_variant_get_strv'')"
  by (simp add: metadata_get_str_array_value_def bind_err_def)

lemma parse_metadata_with_artist:
  "parse_metadata
     [''xesam:title'' \<mapsto> GString ''Song'', ''xesam:artist'' \<mapsto> GStringArray [''A'', ''B'']]
     = Inr \<lparr>mlength = 0, trackid = [], title = ''Song'', album = [], artist = ''A, B'',
            art_url = [], url = []\<rparr>"
  by (simp add: parse_metadata_def metadata_get_str_array_value_def metadata_get_str_value_def
      metadata_get_u64_value_def metadata_get_track_id_def g_variant_lookup_value_def
      bind_err_def)

text \<open>
  C10 does not hold of the program. On a dictionary that has a title and no
  \<open>xesam:artist\<close>, the three other getters return their defaults for the keys that
  are absent, but \<open>metadata_get_str_array_value\<close> hands the null result of the lookup
  to \<open>g_variant_get_strv\<close>, against the precondition of that function, and so does
  \<open>parse_metadata\<close>.
\<close>

theorem parse_metadata_without_artist:
  "parse_metadata [''xesam:title'' \<mapsto> GString ''Song'']
     = Inl (GLibCritical ''g_variant_get_strv'')
   \<and> metadata_get_str_array_value [''xesam:title'' \<mapsto> GString ''Song''] ''xesam:artist''
     = Inl (GLibCritical ''g_variant_get_strv'')
   \<and> metadata_get_str_value [''xesam:title'' \<mapsto> GString ''Song''] ''xesam:album'' = Inr []
   \<and> metadata_get_u64_value [''xesam:title'' \<mapsto> GString ''Song''] ''mpris:length'' = Inr 0
   \<and> metadata_get_track_id [''xesam:title'' \<mapsto> GString ''Song''] = Inr []"
  by (simp add: parse_metadata_def metadata_get_str_array_value_def metadata_get_str_value_def
      metadata_get_u64_value_def metadata_get_track_id_def g_variant_lookup_value_def
      bind_err_def)

section \<open>Properties of the output generator\<close>

subsection \<open>The stream operator of EscapedString\<close>

lemma escape_of_empty: "escape_of c = [] \<Longrightarrow> encode_char c = [c]"
  by (simp add: encode_char_cases escape_of_def split: if_splits)

lemma escape_of_nonempty: "escape_of c \<noteq> [] \<Longrightarrow> encode_char c = escape_of c"
  by (simp add: encode_char_cases escape_of_def split: if_splits)

lemma escaped_loop_eq:
  "last_i \<le> i \<Longrightarrow> i \<le> length s
   \<Longrightarrow> (\<forall>j. last_i \<le> j \<and> j < i \<longrightarrow> escape_of (s ! j) = [])
   \<Longrightarrow> escaped_loop s i last_i os
       = os @ take (i - last_i) (drop last_i s) @ encode (drop i s)"
proof (induction s i last_i os rule: escaped_loop.induct)
  case (1 s i last_i os)
  show ?case
  proof (cases "i < length s")
    case False
    with "1.prems" have "i = length s"
      by simp
    then show ?thesis
      by (subst escaped_loop.simps) (simp add: encode_Nil)
  next
    case True
    then have d: "drop i s = s ! i # drop (Suc i) s"
      by (simp add: Cons_nth_drop_Suc)
    show ?thesis
    proof (cases "escape_of (s ! i) = []")
      case True
      have "\<forall>j. last_i \<le> j \<and> j < i + 1 \<longrightarrow> escape_of (s ! j) = []"
      proof (intro allI impI)
        fix j
        assume "last_i \<le> j \<and> j < i + 1"
        then have "j < i \<or> j = i"
          by arith
        with True "1.prems"(3) \<open>last_i \<le> j \<and> j < i + 1\<close> show "escape_of (s ! j) = []"
          by auto
      qed
      with "1.IH"(2) [of "escape_of (s ! i)"] True "1.prems" \<open>i < length s\<close>
      have ih: "escaped_loop s (i + 1) last_i os
          = os @ take (i + 1 - last_i) (drop last_i s) @ encode (drop (i + 1) s)"
        by simp
      have t: "take (i + 1 - last_i) (drop last_i s) = take (i - last_i) (drop last_i s) @ [s ! i]"
        using "1.prems"(1) \<open>i < length s\<close>
        by (simp add: Suc_diff_le take_Suc_conv_app_nth)
      have "escaped_loop s i last_i os = escaped_loop s (i + 1) last_i os"
        using True \<open>i < length s\<close> by (subst escaped_loop.simps) simp
      with ih t d True show ?thesis
        by (simp add: encode_Cons escape_of_empty)
    next
      case False
      let ?os = "(if last_i < i then os @ take (i - last_i) (drop last_i s) else os)
                   @ escape_of (s ! i)"
      have "\<forall>j. i + 1 \<le> j \<and> j < i + 1 \<longrightarrow> escape_of (s ! j) = []"
        by auto
      with "1.IH"(1) [of "escape_of (s ! i)"] False \<open>i < length s\<close>
      have ih: "escaped_loop s (i + 1) (i + 1) ?os = ?os @ encode (drop (i + 1) s)"
        by fastforce
      have "escaped_loop s i last_i os = escaped_loop s (i + 1) (i + 1) ?os"
        using False \<open>i < length s\<close> by (subst escaped_loop.simps) (simp add: Let_def)
      with ih d False "1.prems"(1) show ?thesis
        by (simp add: encode_Cons escape_of_nonempty)
    qed
  qed
qed

lemma EscapedString_encode: "EscapedString s = encode s"
  by (simp add: EscapedString_def escaped_loop_eq)

subsection \<open>Counting and skipping characters\<close>

lemma g_utf8_skip_pos: "0 < g_utf8_skip c"
  by (simp add: g_utf8_skip_def Let_def)

lemma strlen_loop_acc:
  "g_utf8_strlen_loop buf p len = Inr n \<Longrightarrow>
     len \<le> n \<and> g_utf8_strlen_loop buf p len' = Inr (n - len + len')"
proof (induction buf p len arbitrary: len' rule: g_utf8_strlen_loop.induct)
  case (1 buf p len)
  show ?case
  proof (cases "length buf \<le> p \<or> buf ! p = CHR 0x00")
    case True
    with "1.prems" show ?thesis
      by (subst g_utf8_strlen_loop.simps, subst (asm) g_utf8_strlen_loop.simps)
         (auto split: if_splits)
  next
    case False
    with "1.prems"
    have "g_utf8_strlen_loop buf (p + g_utf8_skip (buf ! p)) (len + 1) = Inr n"
      by (subst (asm) g_utf8_strlen_loop.simps) simp
    with "1.IH" [of "len' + 1"] False
    have "len + 1 \<le> n"
      and "g_utf8_strlen_loop buf (p + g_utf8_skip (buf ! p)) (len' + 1) = Inr (n - (len + 1) + (len' + 1))"
      by auto
    with False show ?thesis
      by (subst g_utf8_strlen_loop.simps) auto
  qed
qed

lemma offset_to_pointer_within:
  "g_utf8_strlen_loop buf p len = Inr tot \<Longrightarrow> len + n \<le> tot \<Longrightarrow>
     \<exists>q. g_utf8_offset_to_pointer buf p n = Inr q \<and> p \<le> q \<and> q < length buf
         \<and> g_utf8_strlen_loop buf q (len + n) = Inr tot"
proof (induction n arbitrary: p len)
  case 0
  then have "p < length buf"
    by (subst (asm) g_utf8_strlen_loop.simps) (simp split: if_splits)
  with 0 show ?case
    by simp
next
  case (Suc n)
  from Suc.prems have range: "p < length buf"
    by (subst (asm) g_utf8_strlen_loop.simps) (simp split: if_splits)
  have nz: "buf ! p \<noteq> CHR 0x00"
  proof
    assume "buf ! p = CHR 0x00"
    with range Suc.prems(1) have "tot = len"
      by (subst (asm) g_utf8_strlen_loop.simps) simp
    with Suc.prems(2) show False
      by simp
  qed
  with range Suc.prems(1)
  have "g_utf8_strlen_loop buf (p + g_utf8_skip (buf ! p)) (len + 1) = Inr tot"
    by (subst (asm) g_utf8_strlen_loop.simps) simp
  from Suc.IH [OF this] Suc.prems(2)
  obtain q where "g_utf8_offset_to_pointer buf (p + g_utf8_skip (buf ! p)) n = Inr q"
    and "p + g_utf8_skip (buf ! p) \<le> q" and "q < length buf"
    and "g_utf8_strlen_loop buf q (len + 1 + n) = Inr tot"
    by auto
  with range show ?case
    by (auto simp: add.commute add.left_commute)
qed

lemma utf8_substr_ok:
  assumes "g_utf8_strlen s = Inr L" and "a + n \<le> L"
  shows "\<exists>v. utf8_substr s a n = Inr v"
proof -
  from assms have l: "g_utf8_strlen_loop (c_str s) 0 0 = Inr L" and "0 + a \<le> L"
    by (simp_all add: g_utf8_strlen_def)
  from offset_to_pointer_within [OF this]
  obtain b where b: "g_utf8_offset_to_pointer (c_str s) 0 a = Inr b"
    and "g_utf8_strlen_loop (c_str s) b a = Inr L"
    by auto
  from offset_to_pointer_within [OF this(2) assms(2)]
  obtain e where e: "g_utf8_offset_to_pointer (c_str s) b n = Inr e" "b \<le> e"
    "e < length (c_str s)"
    by auto
  with b show ?thesis
    by (simp add: utf8_substr_def bind_err_def string_view_def)
qed

lemma utf8_prefix_ok:
  assumes "g_utf8_strlen s = Inr L" and "n \<le> L"
  shows "\<exists>e v. g_utf8_offset_to_pointer (c_str s) 0 n = Inr e
           \<and> string_view (c_str s) 0 e = Inr v"
proof -
  from assms have l: "g_utf8_strlen_loop (c_str s) 0 0 = Inr L" and "0 + n \<le> L"
    by (simp_all add: g_utf8_strlen_def)
  from offset_to_pointer_within [OF this]
  obtain e where "g_utf8_offset_to_pointer (c_str s) 0 n = Inr e" "e < length (c_str s)"
    by auto
  then show ?thesis
    by (simp add: string_view_def)
qed

lemma utf8_substr_0:
  "utf8_substr s 0 n
     = bind_err (g_utf8_offset_to_pointer (c_str s) 0 n) (\<lambda>e. string_view (c_str s) 0 e)"
  by (simp add: utf8_substr_def bind_err_def)

subsection \<open>Scrolling\<close>

text \<open>
  While the stored length is the number of characters of the raw string, and exceeds
  50, \<open>display\<close> reads inside the character array at every offset.
\<close>

lemma display_scrolling:
  assumes "needs_scrolling g" and "g_utf8_strlen (to_display g) = Inr L"
    and "to_display_utf8_len g = L" and "50 < L"
  shows "\<exists>w. display g
           = Inr (w, g\<lparr>display_offset := (if L + 2 < display_offset g then 0
                                          else display_offset g)\<rparr>)"
proof -
  let ?off = "display_offset g"
  consider (full) "?off < L" "50 \<le> L - ?off"
    | (tail_sep) "?off < L" "L - ?off < 50" "50 - (L - ?off) \<le> 3"
    | (tail_head) "?off < L" "L - ?off < 50" "3 < 50 - (L - ?off)"
    | (sep) "L \<le> ?off" "?off - L \<le> 2"
    | (reset) "L \<le> ?off" "2 < ?off - L"
    by linarith
  then show ?thesis
  proof cases
    case full
    then have "?off + 50 \<le> L"
      by simp
    from utf8_substr_ok [OF assms(2) this] obtain v
      where "utf8_substr (to_display g) ?off 50 = Inr v"
      by auto
    with full assms show ?thesis
      by (simp add: display_def Let_def max_width_def bind_err_def)
  next
    case tail_sep
    then have "?off + (L - ?off) \<le> L"
      by simp
    from utf8_substr_ok [OF assms(2) this] obtain v
      where "utf8_substr (to_display g) ?off (L - ?off) = Inr v"
      by auto
    with tail_sep assms show ?thesis
      by (simp add: display_def Let_def max_width_def bind_err_def)
  next
    case tail_head
    then have "?off + (L - ?off) \<le> L"
      by simp
    from utf8_substr_ok [OF assms(2) this] obtain v
      where v: "utf8_substr (to_display g) ?off (L - ?off) = Inr v"
      by auto
    from tail_head assms(4) have "50 - (L - ?off) - 3 \<le> L"
      by simp
    from utf8_prefix_ok [OF assms(2) this] obtain e v'
      where "g_utf8_offset_to_pointer (c_str (to_display g)) 0 (50 - (L - ?off) - 3) = Inr e"
        and "string_view (c_str (to_display g)) 0 e = Inr v'"
      by auto
    with v tail_head assms show ?thesis
      by (simp add: display_def Let_def max_width_def bind_err_def)
  next
    case sep
    with assms(4) have "50 - (3 - (?off - L)) \<le> L"
      by simp
    from utf8_prefix_ok [OF assms(2) this] obtain e v
      where "g_utf8_offset_to_pointer (c_str (to_display g)) 0 (50 - (3 - (?off - L))) = Inr e"
        and "string_view (c_str (to_display g)) 0 e = Inr v"
      by auto
    with sep assms show ?thesis
      by (simp add: display_def Let_def max_width_def bind_err_def)
  next
    case reset
    from assms(4) have "50 \<le> L"
      by simp
    from utf8_prefix_ok [OF assms(2) this] obtain e v
      where "g_utf8_offset_to_pointer (c_str (to_display g)) 0 50 = Inr e"
        and "string_view (c_str (to_display g)) 0 e = Inr v"
      by auto
    with reset assms show ?thesis
      by (simp add: display_def Let_def max_width_def bind_err_def)
  qed
qed

lemma scoll_scrolling:
  assumes "needs_scrolling g" and "g_utf8_strlen (to_display g) = Inr L"
    and "to_display_utf8_len g = L" and "50 < L"
  shows "\<exists>w. scoll g
           = Inr ([Stdout w], g\<lparr>display_offset := (if L + 2 < display_offset g + 1 then 0
                                                   else display_offset g + 1)\<rparr>)"
proof -
  let ?g = "g\<lparr>display_offset := display_offset g + 1\<rparr>"
  from assms have "needs_scrolling ?g" "g_utf8_strlen (to_display ?g) = Inr L"
    "to_display_utf8_len ?g = L"
    by simp_all
  from display_scrolling [OF this assms(4)] obtain w
    where "display ?g
      = Inr (w, ?g\<lparr>display_offset := (if L + 2 < display_offset ?g then 0
                                       else display_offset ?g)\<rparr>)"
    by auto
  with assms(1) show ?thesis
    by (simp add: scoll_def bind_err_def)
qed

lemma ticks_scrolling:
  "needs_scrolling g \<Longrightarrow> g_utf8_strlen (to_display g) = Inr L
   \<Longrightarrow> to_display_utf8_len g = L \<Longrightarrow> 50 < L \<Longrightarrow> display_offset g + n \<le> L + 2
   \<Longrightarrow> \<exists>outs. ticks n g = Inr (outs, g\<lparr>display_offset := display_offset g + n\<rparr>)
          \<and> length outs = n"
proof (induction n arbitrary: g)
  case 0
  then show ?case
    by simp
next
  case (Suc n)
  let ?g = "g\<lparr>display_offset := display_offset g + 1\<rparr>"
  from scoll_scrolling [OF Suc.prems(1-4)] Suc.prems(5) obtain w
    where w: "scoll g = Inr ([Stdout w], ?g)"
    by auto
  from Suc.prems have "needs_scrolling ?g" "g_utf8_strlen (to_display ?g) = Inr L"
    "to_display_utf8_len ?g = L" "50 < L" "display_offset ?g + n \<le> L + 2"
    by simp_all
  from Suc.IH [OF this] obtain outs
    where "ticks n ?g = Inr (outs, ?g\<lparr>display_offset := display_offset ?g + n\<rparr>)"
      and "length outs = n"
    by auto
  with w show ?case
    by (simp add: bind_err_def)
qed

lemma ticks_add:
  "ticks (m + n) g
     = bind_err (ticks m g) (\<lambda>(outs, g').
       bind_err (ticks n g') (\<lambda>(outs', g'').
         Inr (outs @ outs', g'')))"
proof (induction m arbitrary: g)
  case 0
  show ?case
    by (simp add: bind_err_def split: sum.splits)
next
  case (Suc m)
  show ?case
    by (simp add: Suc.IH bind_err_def split: sum.splits prod.splits)
qed

lemma strlen_of_prefix:
  "g_utf8_strlen_loop buf p len = Inr tot \<Longrightarrow> len + n \<le> tot
   \<Longrightarrow> g_utf8_offset_to_pointer buf p n = Inr q
   \<Longrightarrow> g_utf8_strlen_loop (take q buf @ [CHR 0x00]) p len = Inr (len + n)"
proof (induction n arbitrary: p len)
  case 0
  then have "p < length buf"
    by (subst (asm) g_utf8_strlen_loop.simps) (simp split: if_splits)
  with 0 show ?case
    by (subst g_utf8_strlen_loop.simps) (simp add: nth_append)
next
  case (Suc n)
  from Suc.prems have range: "p < length buf"
    by (subst (asm) g_utf8_strlen_loop.simps) (simp split: if_splits)
  have nz: "buf ! p \<noteq> CHR 0x00"
  proof
    assume "buf ! p = CHR 0x00"
    with range Suc.prems(1) have "tot = len"
      by (subst (asm) g_utf8_strlen_loop.simps) simp
    with Suc.prems(2) show False
      by simp
  qed
  with range Suc.prems(1)
  have next_len: "g_utf8_strlen_loop buf (p + g_utf8_skip (buf ! p)) (len + 1) = Inr tot"
    by (subst (asm) g_utf8_strlen_loop.simps) simp
  from range Suc.prems(3)
  have next_ptr: "g_utf8_offset_to_pointer buf (p + g_utf8_skip (buf ! p)) n = Inr q"
    by simp
  from Suc.prems(2) have le: "len + 1 + n \<le> tot"
    by simp
  from offset_to_pointer_within [OF next_len le] next_ptr
  have q: "p + g_utf8_skip (buf ! p) \<le> q" "q < length buf"
    by auto
  with g_utf8_skip_pos [of "buf ! p"] have pq: "p < q"
    by simp
  from Suc.IH [OF next_len le next_ptr]
  have "g_utf8_strlen_loop (take q buf @ [CHR 0x00]) (p + g_utf8_skip (buf ! p)) (len + 1)
      = Inr (len + 1 + n)" .
  with pq q nz show ?case
    by (subst g_utf8_strlen_loop.simps) (simp add: nth_append)
qed

lemma first_codepoints:
  assumes "g_utf8_strlen s = Inr L" and "n \<le> L"
  shows "\<exists>v rest. utf8_substr s 0 n = Inr v \<and> s = v @ rest \<and> g_utf8_strlen v = Inr n"
proof -
  from assms have l: "g_utf8_strlen_loop (c_str s) 0 0 = Inr L" and n: "0 + n \<le> L"
    by (simp_all add: g_utf8_strlen_def)
  from offset_to_pointer_within [OF this]
  obtain e where e: "g_utf8_offset_to_pointer (c_str s) 0 n = Inr e" "e < length (c_str s)"
    by auto
  then have es: "e \<le> length s"
    by (simp add: c_str_def)
  then have t: "take e (c_str s) = take e s"
    by (simp add: c_str_def)
  from strlen_of_prefix [OF l n e(1)] t have "g_utf8_strlen (take e s) = Inr n"
    by (simp add: g_utf8_strlen_def c_str_def)
  moreover from e t have "utf8_substr s 0 n = Inr (take e s)"
    by (simp add: utf8_substr_0 bind_err_def string_view_def)
  moreover have "s = take e s @ drop e s"
    by simp
  ultimately show ?thesis
    by blast
qed

lemma display_at_start:
  assumes "needs_scrolling g" and "display_offset g = 0" and "to_display_utf8_len g = L"
    and "50 < L" and "utf8_substr (to_display g) 0 50 = Inr v"
  shows "display g
     = Inr (line_open @ (if \<not> is_playing g then ''<i>'' else []) @ encode v
              @ (if \<not> is_playing g then ''</i>'' else []) @ line_close, g)"
  using assms by (simp add: display_def Let_def max_width_def bind_err_def EscapedString_encode)

lemma display_at_reset:
  assumes "needs_scrolling g" and "display_offset g = L + 3" and "to_display_utf8_len g = L"
    and "utf8_substr (to_display g) 0 50 = Inr v"
  shows "display g
     = Inr (line_open @ (if \<not> is_playing g then ''<i>'' else []) @ encode v
              @ (if \<not> is_playing g then ''</i>'' else []) @ line_close,
            g\<lparr>display_offset := 0\<rparr>)"
proof -
  from assms(4) obtain e
    where "g_utf8_offset_to_pointer (c_str (to_display g)) 0 50 = Inr e"
      and "string_view (c_str (to_display g)) 0 e = Inr v"
    by (auto simp: utf8_substr_0 bind_err_def split: sum.splits)
  with assms(1-3) show ?thesis
    by (simp add: display_def Let_def max_width_def bind_err_def EscapedString_encode)
qed

text \<open>
  C4. Let the generator be scrolling a raw string of \<open>L > 50\<close> characters, with the
  scroll offset at 0. Then \<open>L + 3\<close> ticks all return; the line that the last of them
  writes is the line that \<open>display\<close> writes at offset 0, which holds the escaped first
  50 characters of the raw string; and the generator is then in the state in which
  it started, so that the lines written repeat with period \<open>L + 3\<close>.
\<close>

theorem window_cycle:
  assumes "needs_scrolling g" and "display_offset g = 0"
    and "g_utf8_strlen (to_display g) = Inr L" and "to_display_utf8_len g = L" and "50 < L"
  shows "\<exists>outs w v rest.
      ticks (L + 3) g = Inr (outs @ [Stdout w], g)
      \<and> length outs = L + 2
      \<and> display g = Inr (w, g)
      \<and> w = line_open @ (if \<not> is_playing g then ''<i>'' else []) @ encode v
              @ (if \<not> is_playing g then ''</i>'' else []) @ line_close
      \<and> utf8_substr (to_display g) 0 50 = Inr v
      \<and> to_display g = v @ rest
      \<and> g_utf8_strlen v = Inr 50
      \<and> (\<forall>k. ticks (L + 3 + k) g
             = bind_err (ticks k g) (\<lambda>(outs', g'). Inr (outs @ [Stdout w] @ outs', g')))"
proof -
  from assms(5) have "50 \<le> L"
    by simp
  from first_codepoints [OF assms(3) this] obtain v rest
    where v: "utf8_substr (to_display g) 0 50 = Inr v" "to_display g = v @ rest"
      "g_utf8_strlen v = Inr 50"
    by auto
  define w where "w = line_open @ (if \<not> is_playing g then ''<i>'' else []) @ encode v
              @ (if \<not> is_playing g then ''</i>'' else []) @ line_close"
  have start: "display g = Inr (w, g)"
    unfolding w_def using assms(1,2,4,5) v(1) by (rule display_at_start)
  let ?g = "g\<lparr>display_offset := L + 2\<rparr>"
  from assms(2) have "display_offset g + (L + 2) \<le> L + 2"
    by simp
  from ticks_scrolling [OF assms(1,3,4,5) this] assms(2) obtain outs
    where outs: "ticks (L + 2) g = Inr (outs, ?g)" "length outs = L + 2"
    by auto
  let ?h = "?g\<lparr>display_offset := display_offset ?g + 1\<rparr>"
  from assms v(1) have "needs_scrolling ?h" "display_offset ?h = L + 3"
    "to_display_utf8_len ?h = L" "utf8_substr (to_display ?h) 0 50 = Inr v"
    by simp_all
  from display_at_reset [OF this] assms(2) have "display ?h = Inr (w, g)"
    by (simp add: w_def)
  with assms(1) have last_tick: "scoll ?g = Inr ([Stdout w], g)"
    by (simp add: scoll_def bind_err_def)
  have one: "ticks 1 ?g = Inr ([Stdout w], g)"
    using last_tick by (simp add: bind_err_def)
  have "L + 3 = (L + 2) + 1"
    by simp
  then have "ticks (L + 3) g
      = bind_err (ticks (L + 2) g) (\<lambda>(outs, g').
        bind_err (ticks 1 g') (\<lambda>(outs', g''). Inr (outs @ outs', g'')))"
    by (simp only: ticks_add)
  with outs(1) one have cycle: "ticks (L + 3) g = Inr (outs @ [Stdout w], g)"
    by (simp only: bind_err_def sum.case prod.case)
  have "\<forall>k. ticks (L + 3 + k) g
             = bind_err (ticks k g) (\<lambda>(outs', g'). Inr (outs @ [Stdout w] @ outs', g'))"
  proof
    fix k
    show "ticks (L + 3 + k) g
             = bind_err (ticks k g) (\<lambda>(outs', g'). Inr (outs @ [Stdout w] @ outs', g'))"
      by (simp only: ticks_add [of "L + 3" k g] cycle)
         (simp add: bind_err_def split: sum.splits prod.splits)
  qed
  with cycle outs(2) start v w_def show ?thesis
    by blast
qed

text \<open>
  The sample state \<open>demo_scrolling\<close> is the one in which the first update for a
  playing player with a title of 9 and an artist of 39 characters leaves the initial
  generator.
\<close>

lemma demo_raw_len: "g_utf8_strlen demo_raw = Inr 51"
  by (simp add: demo_raw_def g_utf8_strlen_def c_str_def g_utf8_strlen_loop.simps
      g_utf8_skip_def)

lemma demo_raw_first:
  "utf8_substr demo_raw 0 50
     = Inr (''Beethoven ~ F'' @ [CHR 0xC3, CHR 0xBC] @ ''r Elise <Bagatelle No. 25 in A minor'')"
  by (simp add: demo_raw_def utf8_substr_def c_str_def bind_err_def string_view_def
      g_utf8_skip_def eval_nat_numeral)

lemma demo_scrolling_rendered:
  "\<exists>line. on_update_seleceted
     ((demo_player ''A'' True)\<lparr>state :=
        demo_state ''Beethoven''
          (''F'' @ [CHR 0xC3, CHR 0xBC] @ ''r Elise <Bagatelle No. 25 in A minor>'')
          PLAYERCTL_PLAYBACK_STATUS_PLAYING\<rparr>)
     demo_env (\<lparr>cache = None\<rparr>, initial_generator)
   = Inr ([Stdout line], \<lparr>cache = None\<rparr>, demo_scrolling)"
proof -
  have t: "g_utf8_strlen ''Beethoven'' = Inr 9"
    and a: "g_utf8_strlen (''F'' @ [CHR 0xC3, CHR 0xBC] @ ''r Elise <Bagatelle No. 25 in A minor>'')
      = Inr 39"
    by (simp_all add: g_utf8_strlen_def c_str_def g_utf8_strlen_loop.simps g_utf8_skip_def)
  have u: "update_to_display ''Beethoven''
      (''F'' @ [CHR 0xC3, CHR 0xBC] @ ''r Elise <Bagatelle No. 25 in A minor>'')
      (initial_generator\<lparr>display_offset := 0,
         last_src := (last_src initial_generator)\<lparr>src_title := ''Beethoven'',
           src_artist := ''F'' @ [CHR 0xC3, CHR 0xBC] @ ''r Elise <Bagatelle No. 25 in A minor>''\<rparr>\<rparr>)
    = Inr (demo_scrolling\<lparr>is_playing := False\<rparr>)"
    using t a
    by (simp add: update_to_display_def bind_err_def Let_def max_width_def demo_scrolling_def
        demo_raw_def initial_generator_def)
  have s: "needs_scrolling demo_scrolling" "g_utf8_strlen (to_display demo_scrolling) = Inr 51"
    "to_display_utf8_len demo_scrolling = 51" "50 < (51::nat)"
    by (simp_all add: demo_scrolling_def demo_raw_len)
  from display_scrolling [OF s] obtain w where "display demo_scrolling = Inr (w, demo_scrolling)"
    by (auto simp: demo_scrolling_def)
  moreover have "(demo_scrolling\<lparr>is_playing := False\<rparr>)\<lparr>is_playing := True\<rparr> = demo_scrolling"
    by (simp add: demo_scrolling_def)
  ultimately show ?thesis
    using u
    by (simp add: on_update_seleceted_def demo_player_def demo_state_def bind_err_def Let_def
        initial_generator_def)
qed

theorem window_cycle_witness:
  "\<exists>outs. ticks 54 demo_scrolling
       = Inr (outs @ [Stdout (line_open @ ''Beethoven ~ F'' @ [CHR 0xC3, CHR 0xBC]
                @ ''r Elise &lt;Bagatelle No. 25 in A minor'' @ line_close)], demo_scrolling)
     \<and> length outs = 53
     \<and> display demo_scrolling
       = Inr (line_open @ ''Beethoven ~ F'' @ [CHR 0xC3, CHR 0xBC]
                @ ''r Elise &lt;Bagatelle No. 25 in A minor'' @ line_close, demo_scrolling)"
proof -
  have hyps: "needs_scrolling demo_scrolling" "display_offset demo_scrolling = 0"
    "g_utf8_strlen (to_display demo_scrolling) = Inr 51"
    "to_display_utf8_len demo_scrolling = 51" "50 < (51::nat)"
    by (simp_all add: demo_scrolling_def demo_raw_len)
  from window_cycle [OF hyps] obtain outs w v
    where c: "ticks (51 + 3) demo_scrolling = Inr (outs @ [Stdout w], demo_scrolling)"
      "length outs = 51 + 2" "display demo_scrolling = Inr (w, demo_scrolling)"
      "w = line_open @ (if \<not> is_playing demo_scrolling then ''<i>'' else []) @ encode v
              @ (if \<not> is_playing demo_scrolling then ''</i>'' else []) @ line_close"
      "utf8_substr (to_display demo_scrolling) 0 50 = Inr v"
    by blast
  from c(5) have "v = ''Beethoven ~ F'' @ [CHR 0xC3, CHR 0xBC] @ ''r Elise <Bagatelle No. 25 in A minor''"
    by (simp add: demo_scrolling_def demo_raw_first)
  then have "encode v = ''Beethoven ~ F'' @ [CHR 0xC3, CHR 0xBC]
                @ ''r Elise &lt;Bagatelle No. 25 in A minor''"
    by (simp add: encode_Cons encode_Nil encode_char_cases special_chars)
  with c(4) have "w = line_open @ ''Beethoven ~ F'' @ [CHR 0xC3, CHR 0xBC]
                @ ''r Elise &lt;Bagatelle No. 25 in A minor'' @ line_close"
    by (simp add: demo_scrolling_def)
  with c(1-3) show ?thesis
    by auto
qed

subsection \<open>The text to display\<close>

lemma strlen_loop_shift:
  "g_utf8_strlen_loop (a @ buf) (length a + p) len = g_utf8_strlen_loop buf p len"
proof (induction buf p len rule: g_utf8_strlen_loop.induct)
  case (1 buf p len)
  show ?case
  proof (cases "length buf \<le> p \<or> buf ! p = CHR 0x00")
    case True
    then show ?thesis
      by (subst g_utf8_strlen_loop.simps, subst (2) g_utf8_strlen_loop.simps)
         (auto simp: nth_append)
  next
    case False
    with "1.IH" show ?thesis
      by (subst g_utf8_strlen_loop.simps, subst (2) g_utf8_strlen_loop.simps)
         (simp add: nth_append add.assoc)
  qed
qed

lemma strlen_loop_prefix:
  "g_utf8_strlen_loop buf p len = Inr n \<Longrightarrow> buf = a @ [CHR 0x00] \<Longrightarrow> CHR 0x00 \<notin> set a
   \<Longrightarrow> g_utf8_strlen_loop (a @ rest) p len = g_utf8_strlen_loop (a @ rest) (length a) n"
proof (induction buf p len rule: g_utf8_strlen_loop.induct)
  case (1 buf p len)
  from "1.prems"(1,2) have range: "p \<le> length a"
    by (subst (asm) g_utf8_strlen_loop.simps) (simp split: if_splits)
  show ?case
  proof (cases "p = length a")
    case True
    with "1.prems"(1,2) have "n = len"
      by (subst (asm) g_utf8_strlen_loop.simps) simp
    with True show ?thesis
      by simp
  next
    case False
    with range have lt: "p < length a"
      by simp
    with "1.prems"(3) have nz: "a ! p \<noteq> CHR 0x00"
      by (metis nth_mem)
    from lt nz "1.prems"(1,2)
    have step: "g_utf8_strlen_loop buf (p + g_utf8_skip (buf ! p)) (len + 1) = Inr n"
      by (subst (asm) g_utf8_strlen_loop.simps) (simp add: nth_append)
    from lt nz "1.prems"(2) have cond: "\<not> length buf \<le> p" "buf ! p \<noteq> CHR 0x00"
      by (simp_all add: nth_append)
    from "1.IH" [OF cond step "1.prems"(2,3)] lt "1.prems"(2)
    have "g_utf8_strlen_loop (a @ rest) (p + g_utf8_skip (a ! p)) (len + 1)
        = g_utf8_strlen_loop (a @ rest) (length a) n"
      by (simp add: nth_append)
    with lt nz show ?thesis
      by (subst g_utf8_strlen_loop.simps) (simp add: nth_append)
  qed
qed

lemma g_utf8_strlen_append:
  assumes "CHR 0x00 \<notin> set a" and "g_utf8_strlen a = Inr la" and "g_utf8_strlen b = Inr lb"
  shows "g_utf8_strlen (a @ b) = Inr (la + lb)"
proof -
  from assms(2) have "g_utf8_strlen_loop (a @ [CHR 0x00]) 0 0 = Inr la"
    by (simp add: g_utf8_strlen_def c_str_def)
  from strlen_loop_prefix [OF this refl assms(1), of "b @ [CHR 0x00]"]
  have "g_utf8_strlen (a @ b) = g_utf8_strlen_loop (a @ (b @ [CHR 0x00])) (length a + 0) la"
    by (simp add: g_utf8_strlen_def c_str_def)
  also have "\<dots> = g_utf8_strlen_loop (b @ [CHR 0x00]) 0 la"
    by (rule strlen_loop_shift)
  also from assms(3) have "\<dots> = Inr (la + lb)"
    using strlen_loop_acc [of "b @ [CHR 0x00]" 0 0 lb la]
    by (simp add: g_utf8_strlen_def c_str_def)
  finally show ?thesis .
qed

lemma g_utf8_strlen_seperator: "g_utf8_strlen '' ~ '' = Inr 3"
  by (simp add: g_utf8_strlen_def c_str_def g_utf8_strlen_loop.simps g_utf8_skip_def)

lemma encode_seperator: "encode '' ~ '' = '' ~ ''"
  by (simp add: encode_Cons encode_Nil encode_char_cases special_chars)

lemma raw_text_len:
  assumes "CHR 0x00 \<notin> set ti" and "g_utf8_strlen ti = Inr len_ti"
    and "g_utf8_strlen ar = Inr len_ar"
  shows "g_utf8_strlen (raw_text ti ar)
     = Inr (len_ti + (if ti \<noteq> [] \<and> ar \<noteq> [] then 3 else 0) + len_ar)"
proof (cases "ti \<noteq> [] \<and> ar \<noteq> []")
  case True
  have "CHR 0x00 \<notin> set '' ~ ''"
    by simp
  from g_utf8_strlen_append [OF this g_utf8_strlen_seperator assms(3)]
  have "g_utf8_strlen ('' ~ '' @ ar) = Inr (3 + len_ar)" .
  from g_utf8_strlen_append [OF assms(1,2) this] True show ?thesis
    by (simp add: raw_text_def add.assoc)
next
  case False
  from g_utf8_strlen_append [OF assms] False show ?thesis
    by (auto simp: raw_text_def)
qed

text \<open>
  C5. For a title and an artist whose characters GLib can count,
  \<open>update_to_display\<close> clears \<open>needs_scrolling\<close> and stores the escaped text exactly
  when the number of characters of the title, plus 3 for the separator when both are
  not empty, plus the number of characters of the artist, is at most 50; otherwise
  it sets \<open>needs_scrolling\<close> and stores the raw text. In both cases it stores that
  number, which is the number of characters of the raw text.
\<close>

theorem static_scrolling_boundary:
  assumes "g_utf8_strlen ti = Inr len_ti" and "g_utf8_strlen ar = Inr len_ar"
  shows "\<exists>g'. update_to_display ti ar g = Inr g'
     \<and> (\<not> needs_scrolling g'
          \<longleftrightarrow> len_ti + (if ti \<noteq> [] \<and> ar \<noteq> [] then 3 else 0) + len_ar \<le> 50)
     \<and> (\<not> needs_scrolling g' \<longrightarrow> to_display g' = encode (raw_text ti ar))
     \<and> (needs_scrolling g' \<longrightarrow> to_display g' = raw_text ti ar)
     \<and> to_display_utf8_len g' = len_ti + (if ti \<noteq> [] \<and> ar \<noteq> [] then 3 else 0) + len_ar
     \<and> (CHR 0x00 \<notin> set ti \<longrightarrow> g_utf8_strlen (raw_text ti ar) = Inr (to_display_utf8_len g'))
     \<and> display_offset g' = display_offset g \<and> is_playing g' = is_playing g
     \<and> last_src g' = last_src g"
proof -
  let ?n = "len_ti + (if ti \<noteq> [] \<and> ar \<noteq> [] then 3 else 0) + len_ar"
  have enc: "encode (raw_text ti ar)
      = encode ti @ (if ti \<noteq> [] \<and> ar \<noteq> [] then '' ~ '' else []) @ encode ar"
    by (simp add: raw_text_def encode_append encode_seperator encode_Nil)
  show ?thesis
  proof (cases "?n \<le> 50")
    case True
    with assms enc raw_text_len [OF _ assms] show ?thesis
      by (simp add: update_to_display_def bind_err_def Let_def max_width_def)
  next
    case False
    with assms raw_text_len [OF _ assms] show ?thesis
      by (simp add: update_to_display_def bind_err_def Let_def max_width_def raw_text_def)
  qed
qed

theorem static_scrolling_boundary_witness:
  "(\<exists>g'. update_to_display ''Bohemian Rhapsody & Other Hits (Remastered'' ''Queen''
            initial_generator = Inr g'
         \<and> \<not> needs_scrolling g' \<and> to_display_utf8_len g' = 50
         \<and> to_display g' = ''Bohemian Rhapsody &amp; Other Hits (Remastered ~ Queen'')
   \<and> (\<exists>g'. update_to_display ''Bohemian Rhapsody & Other Hits (Remastered)'' ''Queen''
            initial_generator = Inr g'
         \<and> needs_scrolling g' \<and> to_display_utf8_len g' = 51
         \<and> to_display g' = ''Bohemian Rhapsody & Other Hits (Remastered) ~ Queen'')"
proof
  have t: "g_utf8_strlen ''Bohemian Rhapsody & Other Hits (Remastered'' = Inr 42"
    and a: "g_utf8_strlen ''Queen'' = Inr 5"
    by (simp_all add: g_utf8_strlen_def c_str_def g_utf8_strlen_loop.simps g_utf8_skip_def)
  from static_scrolling_boundary [OF t a, of initial_generator]
  obtain g' where g': "update_to_display ''Bohemian Rhapsody & Other Hits (Remastered'' ''Queen''
            initial_generator = Inr g'"
    and scr: "(\<not> needs_scrolling g') = (42 + (if ''Bohemian Rhapsody & Other Hits (Remastered'' \<noteq> [] \<and> ''Queen'' \<noteq> [] then 3 else 0) + 5 \<le> (50::nat))"
    and disp: "\<not> needs_scrolling g' \<longrightarrow> to_display g' = encode (raw_text ''Bohemian Rhapsody & Other Hits (Remastered'' ''Queen'')"
    and len: "to_display_utf8_len g' = 42 + (if ''Bohemian Rhapsody & Other Hits (Remastered'' \<noteq> [] \<and> ''Queen'' \<noteq> [] then 3 else 0) + 5"
    by blast
  from scr have ns: "\<not> needs_scrolling g'"
    by simp
  with disp have "to_display g' = ''Bohemian Rhapsody &amp; Other Hits (Remastered ~ Queen''"
    by (simp add: raw_text_def encode_Cons encode_Nil encode_char_cases special_chars)
  with g' ns len
  show "\<exists>g'. update_to_display ''Bohemian Rhapsody & Other Hits (Remastered'' ''Queen''
            initial_generator = Inr g'
         \<and> \<not> needs_scrolling g' \<and> to_display_utf8_len g' = 50
         \<and> to_display g' = ''Bohemian Rhapsody &amp; Other Hits (Remastered ~ Queen''"
    by simp
next
  have t: "g_utf8_strlen ''Bohemian Rhapsody & Other Hits (Remastered)'' = Inr 43"
    and a: "g_utf8_strlen ''Queen'' = Inr 5"
    by (simp_all add: g_utf8_strlen_def c_str_def g_utf8_strlen_loop.simps g_utf8_skip_def)
  from static_scrolling_boundary [OF t a, of initial_generator]
  obtain g' where g': "update_to_display ''Bohemian Rhapsody & Other Hits (Remastered)'' ''Queen''
            initial_generator = Inr g'"
    and scr: "(\<not> needs_scrolling g') = (43 + (if ''Bohemian Rhapsody & Other Hits (Remastered)'' \<noteq> [] \<and> ''Queen'' \<noteq> [] then 3 else 0) + 5 \<le> (50::nat))"
    and disp: "needs_scrolling g' \<longrightarrow> to_display g' = raw_text ''Bohemian Rhapsody & Other Hits (Remastered)'' ''Queen''"
    and len: "to_display_utf8_len g' = 43 + (if ''Bohemian Rhapsody & Other Hits (Remastered)'' \<noteq> [] \<and> ''Queen'' \<noteq> [] then 3 else 0) + 5"
    by blast
  from scr have ns: "needs_scrolling g'"
    by simp
  with disp have "to_display g' = ''Bohemian Rhapsody & Other Hits (Remastered) ~ Queen''"
    by (simp add: raw_text_def)
  with g' ns len
  show "\<exists>g'. update_to_display ''Bohemian Rhapsody & Other Hits (Remastered)'' ''Queen''
            initial_generator = Inr g'
         \<and> needs_scrolling g' \<and> to_display_utf8_len g' = 51
         \<and> to_display g' = ''Bohemian Rhapsody & Other Hits (Remastered) ~ Queen''"
    by simp
qed

section \<open>Properties of the updates\<close>

subsection \<open>The cover-art routine\<close>

lemma cover_art_try_throws:
  "cover_art_try url_arg env fs = (fs', Inl e) \<Longrightarrow> is_std_exception e"
  by (auto simp: cover_art_try_def symlink_status_def remove_all_def create_symlink_def
      split: sum.splits if_splits)

lemma cover_art_try_quiet:
  "cover_art_try url_arg env fs = (fs', Inr outs) \<Longrightarrow> emissions outs = []"
  by (auto simp: cover_art_try_def split: sum.splits if_splits)

lemma cover_art_try_cache:
  "\<not> symlink_status_fails env \<Longrightarrow> \<not> remove_all_fails env \<Longrightarrow> \<not> create_symlink_fails env
   \<Longrightarrow> \<exists>outs. cover_art_try url_arg env fs
         = (fs\<lparr>cache := (if starts_with url_arg ''file://''
                           then Some (Symlink (drop 7 url_arg)) else None)\<rparr>, Inr outs)"
  by (cases "cache fs")
     (auto simp: cover_art_try_def symlink_status_def remove_all_def create_symlink_def
        split: artifact.splits)

lemma update_cover_art_returns:
  "\<exists>outs fs'. update_cover_art url_arg env (fs, g)
       = Inr (outs, fs', g\<lparr>last_src := (last_src g)\<lparr>src_art_url := url_arg\<rparr>\<rparr>)
     \<and> emissions outs = []"
proof -
  obtain fs' r where t: "cover_art_try url_arg env fs = (fs', r)"
    by (cases "cover_art_try url_arg env fs")
  show ?thesis
  proof (cases r)
    case (Inl e)
    with t cover_art_try_throws [of url_arg env fs fs' e] show ?thesis
      by (simp add: update_cover_art_def)
  next
    case (Inr outs)
    with t cover_art_try_quiet [of url_arg env fs fs' outs] show ?thesis
      by (simp add: update_cover_art_def)
  qed
qed

subsection \<open>Updates of the selected player\<close>

lemma display_state:
  assumes "display g = Inr (w, g')"
  shows "g' = g \<or> g' = g\<lparr>display_offset := 0\<rparr>"
proof -
  let ?off = "display_offset g" and ?L = "to_display_utf8_len g"
  consider (static) "\<not> needs_scrolling g"
    | (full) "needs_scrolling g" "?off < ?L" "50 \<le> ?L - ?off"
    | (tail_sep) "needs_scrolling g" "?off < ?L" "?L - ?off < 50" "50 - (?L - ?off) \<le> 3"
    | (tail_head) "needs_scrolling g" "?off < ?L" "?L - ?off < 50" "3 < 50 - (?L - ?off)"
    | (sep) "needs_scrolling g" "?L \<le> ?off" "?off - ?L \<le> 2"
    | (reset) "needs_scrolling g" "?L \<le> ?off" "2 < ?off - ?L"
    by linarith
  then show ?thesis
  proof cases
    case static
    with assms show ?thesis
      by (simp add: display_def Let_def)
  next
    case full
    with assms show ?thesis
      by (auto simp: display_def Let_def bind_err_def max_width_def split: sum.splits)
  next
    case tail_sep
    with assms show ?thesis
      by (auto simp: display_def Let_def bind_err_def max_width_def split: sum.splits)
  next
    case tail_head
    with assms show ?thesis
      by (auto simp: display_def Let_def bind_err_def max_width_def split: sum.splits)
  next
    case sep
    with assms show ?thesis
      by (auto simp: display_def Let_def bind_err_def max_width_def split: sum.splits)
  next
    case reset
    with assms show ?thesis
      by (auto simp: display_def Let_def bind_err_def max_width_def split: sum.splits)
  qed
qed

lemma display_keeps:
  "display g = Inr (w, g') \<Longrightarrow> last_src g' = last_src g \<and> is_playing g' = is_playing g"
  by (drule display_state) auto

lemma update_to_display_keeps:
  "update_to_display ti ar g = Inr g' \<Longrightarrow>
     last_src g' = last_src g \<and> is_playing g' = is_playing g"
  by (auto simp: update_to_display_def Let_def bind_err_def split: if_splits sum.splits)

lemma cover_step:
  "\<exists>outs fs1 g1.
     (if au \<noteq> src_art_url (last_src g) then update_cover_art au env (fs, g)
      else Inr ([], fs, g)) = Inr (outs, fs1, g1)
     \<and> emissions outs = [] \<and> src_title (last_src g1) = src_title (last_src g)
     \<and> src_artist (last_src g1) = src_artist (last_src g) \<and> is_playing g1 = is_playing g"
proof (cases "au \<noteq> src_art_url (last_src g)")
  case True
  from update_cover_art_returns [of au env fs g] obtain outs fs'
    where "update_cover_art au env (fs, g)
       = Inr (outs, fs', g\<lparr>last_src := (last_src g)\<lparr>src_art_url := au\<rparr>\<rparr>)"
      and "emissions outs = []"
    by blast
  with True show ?thesis
    by simp
next
  case False
  then show ?thesis
    by simp
qed

lemma quiet_update:
  assumes "last_rendered g p"
  shows "\<exists>outs fs' g'. on_update_seleceted p env (fs, g) = Inr (outs, fs', g')
           \<and> emissions outs = [] \<and> last_rendered g' p"
proof -
  from cover_step [of "art_url (metadata (state p))" g env fs] obtain outs fs1 g1
    where "(if art_url (metadata (state p)) \<noteq> src_art_url (last_src g)
            then update_cover_art (art_url (metadata (state p))) env (fs, g)
            else Inr ([], fs, g)) = Inr (outs, fs1, g1)"
      and "emissions outs = []" and "src_title (last_src g1) = src_title (last_src g)"
      and "src_artist (last_src g1) = src_artist (last_src g)"
      and "is_playing g1 = is_playing g"
    by blast
  with assms show ?thesis
    by (simp add: on_update_seleceted_def Let_def bind_err_def last_rendered_def)
qed

lemma update_renders:
  assumes "on_update_seleceted p env (fs, g) = Inr (outs, fs', g')"
  shows "last_rendered g' p"
proof -
  let ?ti = "title (metadata (state p))" and ?ar = "artist (metadata (state p))"
  let ?pl = "playback_status (state p) = PLAYERCTL_PLAYBACK_STATUS_PLAYING"
  from cover_step [of "art_url (metadata (state p))" g env fs] obtain outs1 fs1 g1
    where c: "(if art_url (metadata (state p)) \<noteq> src_art_url (last_src g)
            then update_cover_art (art_url (metadata (state p))) env (fs, g)
            else Inr ([], fs, g)) = Inr (outs1, fs1, g1)"
    by blast
  show ?thesis
  proof (cases "src_title (last_src g1) = ?ti \<and> src_artist (last_src g1) = ?ar")
    case same: True
    show ?thesis
    proof (cases "is_playing g1 = ?pl")
      case True
      with assms c same show ?thesis
        by (simp add: on_update_seleceted_def Let_def bind_err_def last_rendered_def)
    next
      case False
      with assms c same obtain line
        where "display (g1\<lparr>is_playing := ?pl\<rparr>) = Inr (line, g')"
        by (auto simp: on_update_seleceted_def Let_def bind_err_def split: sum.splits)
      from display_keeps [OF this] same show ?thesis
        by (simp add: last_rendered_def)
    qed
  next
    case False
    let ?g2 = "g1\<lparr>display_offset := 0,
                   last_src := (last_src g1)\<lparr>src_title := ?ti, src_artist := ?ar\<rparr>\<rparr>"
    from assms c False obtain g3 line
      where u: "update_to_display ?ti ?ar ?g2 = Inr g3"
        and d: "display (g3\<lparr>is_playing := ?pl\<rparr>) = Inr (line, g')"
      by (auto simp: on_update_seleceted_def Let_def bind_err_def split: sum.splits)
    from update_to_display_keeps [OF u] display_keeps [OF d] show ?thesis
      by (simp add: last_rendered_def)
  qed
qed

text \<open>
  C6. An update of the selected player whose title, artist and playing flag are
  those last rendered returns and writes no status line. Hence, after an update that
  has returned, an update with the same title, artist and playing flag writes no
  status line.
\<close>

theorem no_op_update:
  "(last_rendered g p
      \<longrightarrow> (\<exists>outs fs' g'. on_update_seleceted p env (fs, g) = Inr (outs, fs', g')
             \<and> emissions outs = []))
   \<and> (on_update_seleceted p env (fs, g) = Inr (outs1, fs1, g1)
        \<and> title (metadata (state p')) = title (metadata (state p))
        \<and> artist (metadata (state p')) = artist (metadata (state p))
        \<and> (playback_status (state p') = PLAYERCTL_PLAYBACK_STATUS_PLAYING)
            = (playback_status (state p) = PLAYERCTL_PLAYBACK_STATUS_PLAYING)
      \<longrightarrow> (\<exists>outs fs' g'. on_update_seleceted p' env' (fs1, g1) = Inr (outs, fs', g')
             \<and> emissions outs = []))"
proof (intro conjI impI; (elim conjE)?)
  assume "last_rendered g p"
  from quiet_update [OF this]
  show "\<exists>outs fs' g'. on_update_seleceted p env (fs, g) = Inr (outs, fs', g')
             \<and> emissions outs = []"
    by blast
next
  assume first: "on_update_seleceted p env (fs, g) = Inr (outs1, fs1, g1)"
    and same: "title (metadata (state p')) = title (metadata (state p))"
      "artist (metadata (state p')) = artist (metadata (state p))"
      "(playback_status (state p') = PLAYERCTL_PLAYBACK_STATUS_PLAYING)
            = (playback_status (state p) = PLAYERCTL_PLAYBACK_STATUS_PLAYING)"
  from update_renders [OF first] same have "last_rendered g1 p'"
    by (simp add: last_rendered_def)
  from quiet_update [OF this]
  show "\<exists>outs fs' g'. on_update_seleceted p' env' (fs1, g1) = Inr (outs, fs', g')
             \<and> emissions outs = []"
    by blast
qed

lemma display_last_src:
  "display (g\<lparr>last_src := l\<rparr>)
     = (case display g of Inl e \<Rightarrow> Inl e | Inr (w, h) \<Rightarrow> Inr (w, h\<lparr>last_src := l\<rparr>))"
proof -
  let ?off = "display_offset g" and ?L = "to_display_utf8_len g"
  consider (static) "\<not> needs_scrolling g"
    | (full) "needs_scrolling g" "?off < ?L" "50 \<le> ?L - ?off"
    | (tail_sep) "needs_scrolling g" "?off < ?L" "?L - ?off < 50" "50 - (?L - ?off) \<le> 3"
    | (tail_head) "needs_scrolling g" "?off < ?L" "?L - ?off < 50" "3 < 50 - (?L - ?off)"
    | (sep) "needs_scrolling g" "?L \<le> ?off" "?off - ?L \<le> 2"
    | (reset) "needs_scrolling g" "?L \<le> ?off" "2 < ?off - ?L"
    by linarith
  then show ?thesis
  proof cases
    case static
    then show ?thesis
      by (simp add: display_def Let_def)
  next
    case full
    then show ?thesis
      by (simp add: display_def Let_def bind_err_def max_width_def split: sum.splits)
  next
    case tail_sep
    then show ?thesis
      by (simp add: display_def Let_def bind_err_def max_width_def split: sum.splits)
  next
    case tail_head
    then show ?thesis
      by (simp add: display_def Let_def bind_err_def max_width_def split: sum.splits)
  next
    case sep
    then show ?thesis
      by (simp add: display_def Let_def bind_err_def max_width_def split: sum.splits)
  next
    case reset
    then show ?thesis
      by (simp add: display_def Let_def bind_err_def max_width_def split: sum.splits)
  qed
qed

lemma demo_first_update:
  "on_update_seleceted (demo_player ''A'' True) demo_env (\<lparr>cache = None\<rparr>, initial_generator)
     = Inr ([Stdout (line_open @ ''Song ~ Artist'' @ line_close)], \<lparr>cache = None\<rparr>,
         \<lparr>to_display = ''Song ~ Artist'', to_display_utf8_len = 13, needs_scrolling = False,
          display_offset = 0, is_playing = True,
          last_src = \<lparr>src_title = ''Song'', src_artist = ''Artist'', src_art_url = []\<rparr>\<rparr>)"
  by (simp add: on_update_seleceted_def demo_player_def demo_state_def initial_generator_def
      update_to_display_def display_def bind_err_def Let_def max_width_def
      g_utf8_strlen_def c_str_def g_utf8_strlen_loop.simps g_utf8_skip_def
      encode_Cons encode_Nil encode_char_cases special_chars)

theorem no_op_update_witness:
  "\<exists>outs1 fs1 g1.
     on_update_seleceted (demo_player ''A'' True) demo_env (\<lparr>cache = None\<rparr>, initial_generator)
       = Inr (outs1, fs1, g1)
     \<and> emissions outs1 = [line_open @ ''Song ~ Artist'' @ line_close]
     \<and> last_rendered g1 (demo_player ''A'' True)
     \<and> (\<exists>outs fs' g'.
           on_update_seleceted (demo_player ''A'' True) demo_env (fs1, g1) = Inr (outs, fs', g')
           \<and> emissions outs = [])
     \<and> (\<exists>outs fs' g'.
           on_update_seleceted (demo_player ''B'' False) demo_env (fs1, g1) = Inr (outs, fs', g')
           \<and> emissions outs = [])"
proof -
  let ?g1 = "\<lparr>to_display = ''Song ~ Artist'', to_display_utf8_len = 13, needs_scrolling = False,
          display_offset = 0, is_playing = True,
          last_src = \<lparr>src_title = ''Song'', src_artist = ''Artist'', src_art_url = []\<rparr>\<rparr>"
  have r: "last_rendered ?g1 (demo_player ''A'' True)"
    by (simp add: last_rendered_def demo_player_def demo_state_def)
  have same: "on_update_seleceted (demo_player ''A'' True) demo_env
        (\<lparr>cache = None\<rparr>, initial_generator)
      = Inr ([Stdout (line_open @ ''Song ~ Artist'' @ line_close)], \<lparr>cache = None\<rparr>, ?g1)
    \<and> title (metadata (state (demo_player ''B'' False)))
      = title (metadata (state (demo_player ''A'' True)))
    \<and> artist (metadata (state (demo_player ''B'' False)))
      = artist (metadata (state (demo_player ''A'' True)))
    \<and> (playback_status (state (demo_player ''B'' False)) = PLAYERCTL_PLAYBACK_STATUS_PLAYING)
      = (playback_status (state (demo_player ''A'' True)) = PLAYERCTL_PLAYBACK_STATUS_PLAYING)"
    using demo_first_update by (simp add: demo_player_def)
  note again = no_op_update [where g = ?g1 and p = "demo_player ''A'' True" and env = demo_env
      and fs = "\<lparr>cache = None\<rparr>", THEN conjunct1, THEN mp, OF r]
  note other = no_op_update [where g = initial_generator and p = "demo_player ''A'' True"
      and env = demo_env and fs = "\<lparr>cache = None\<rparr>" and p' = "demo_player ''B'' False"
      and env' = demo_env, THEN conjunct2, THEN mp, OF same]
  from again other demo_first_update r show ?thesis
    by simp
qed

text \<open>
  C8. \<open>update_cover_art\<close> returns whatever the file operations do, writes no status
  line, and changes nothing in the generator but \<open>last_src.art_url\<close>, so that
  \<open>display\<close> writes the same line after it as before it. When no file operation
  fails, whatever lay at the cache path is gone afterwards, and the path holds a
  symbolic link to the address without its first 7 characters when the address
  starts with \<open>file://\<close>, and nothing for any other address.
\<close>

theorem cover_art_cache:
  "(\<exists>outs fs'. update_cover_art url_arg env (fs, g)
       = Inr (outs, fs', g\<lparr>last_src := (last_src g)\<lparr>src_art_url := url_arg\<rparr>\<rparr>)
     \<and> emissions outs = [])
   \<and> (\<not> symlink_status_fails env \<and> \<not> remove_all_fails env \<and> \<not> create_symlink_fails env
      \<longrightarrow> (\<exists>outs. update_cover_art url_arg env (fs, g)
            = Inr (outs,
                fs\<lparr>cache := (if starts_with url_arg ''file://''
                               then Some (Symlink (drop 7 url_arg)) else None)\<rparr>,
                g\<lparr>last_src := (last_src g)\<lparr>src_art_url := url_arg\<rparr>\<rparr>)))
   \<and> display (g\<lparr>last_src := (last_src g)\<lparr>src_art_url := url_arg\<rparr>\<rparr>)
     = (case display g of
          Inl e \<Rightarrow> Inl e
        | Inr (w, h) \<Rightarrow> Inr (w, h\<lparr>last_src := (last_src g)\<lparr>src_art_url := url_arg\<rparr>\<rparr>))"
proof (intro conjI impI)
  show "\<exists>outs fs'. update_cover_art url_arg env (fs, g)
       = Inr (outs, fs', g\<lparr>last_src := (last_src g)\<lparr>src_art_url := url_arg\<rparr>\<rparr>)
     \<and> emissions outs = []"
    by (rule update_cover_art_returns)
next
  assume "\<not> symlink_status_fails env \<and> \<not> remove_all_fails env \<and> \<not> create_symlink_fails env"
  then obtain outs where "cover_art_try url_arg env fs
         = (fs\<lparr>cache := (if starts_with url_arg ''file://''
                           then Some (Symlink (drop 7 url_arg)) else None)\<rparr>, Inr outs)"
    using cover_art_try_cache [of env url_arg fs] by blast
  then show "\<exists>outs. update_cover_art url_arg env (fs, g)
            = Inr (outs,
                fs\<lparr>cache := (if starts_with url_arg ''file://''
                               then Some (Symlink (drop 7 url_arg)) else None)\<rparr>,
                g\<lparr>last_src := (last_src g)\<lparr>src_art_url := url_arg\<rparr>\<rparr>)"
    by (simp add: update_cover_art_def)
next
  show "display (g\<lparr>last_src := (last_src g)\<lparr>src_art_url := url_arg\<rparr>\<rparr>)
     = (case display g of
          Inl e \<Rightarrow> Inl e
        | Inr (w, h) \<Rightarrow> Inr (w, h\<lparr>last_src := (last_src g)\<lparr>src_art_url := url_arg\<rparr>\<rparr>))"
    by (rule display_last_src)
qed


theorem cover_art_cache_witness:
  "(\<exists>outs. update_cover_art ''file:///home/u/cover.png'' demo_env
        (\<lparr>cache = Some OtherFile\<rparr>, initial_generator)
      = Inr (outs, \<lparr>cache = Some (Symlink ''/home/u/cover.png'')\<rparr>,
          initial_generator\<lparr>last_src :=
            (last_src initial_generator)\<lparr>src_art_url := ''file:///home/u/cover.png''\<rparr>\<rparr>))
   \<and> (\<exists>outs. update_cover_art ''https://example.org/cover.png'' demo_env
        (\<lparr>cache = Some (Symlink ''/home/u/cover.png'')\<rparr>, initial_generator)
      = Inr (outs, \<lparr>cache = None\<rparr>,
          initial_generator\<lparr>last_src :=
            (last_src initial_generator)\<lparr>src_art_url := ''https://example.org/cover.png''\<rparr>\<rparr>))
   \<and> (\<exists>outs fs'. update_cover_art ''file:///home/u/cover.png''
        (demo_env\<lparr>remove_all_fails := True\<rparr>)
        (\<lparr>cache = Some OtherFile\<rparr>, initial_generator)
      = Inr (outs, fs',
          initial_generator\<lparr>last_src :=
            (last_src initial_generator)\<lparr>src_art_url := ''file:///home/u/cover.png''\<rparr>\<rparr>)
      \<and> emissions outs = [])"
proof -
  have ok: "\<not> symlink_status_fails demo_env \<and> \<not> remove_all_fails demo_env
      \<and> \<not> create_symlink_fails demo_env"
    by (simp add: demo_env_def)
  have local_url: "starts_with ''file:///home/u/cover.png'' ''file://''"
    and remote_url: "\<not> starts_with ''https://example.org/cover.png'' ''file://''"
    by (simp_all add: starts_with_def)
  from cover_art_cache [of "''file:///home/u/cover.png''" demo_env
      "\<lparr>cache = Some OtherFile\<rparr>" initial_generator, THEN conjunct2, THEN conjunct1, THEN mp, OF ok]
    local_url
  have one: "\<exists>outs. update_cover_art ''file:///home/u/cover.png'' demo_env
        (\<lparr>cache = Some OtherFile\<rparr>, initial_generator)
      = Inr (outs, \<lparr>cache = Some (Symlink ''/home/u/cover.png'')\<rparr>,
          initial_generator\<lparr>last_src :=
            (last_src initial_generator)\<lparr>src_art_url := ''file:///home/u/cover.png''\<rparr>\<rparr>)"
    by simp
  from cover_art_cache [of "''https://example.org/cover.png''" demo_env
      "\<lparr>cache = Some (Symlink ''/home/u/cover.png'')\<rparr>" initial_generator,
      THEN conjunct2, THEN conjunct1, THEN mp, OF ok] remote_url
  have two: "\<exists>outs. update_cover_art ''https://example.org/cover.png'' demo_env
        (\<lparr>cache = Some (Symlink ''/home/u/cover.png'')\<rparr>, initial_generator)
      = Inr (outs, \<lparr>cache = None\<rparr>,
          initial_generator\<lparr>last_src :=
            (last_src initial_generator)\<lparr>src_art_url := ''https://example.org/cover.png''\<rparr>\<rparr>)"
    by simp
  from cover_art_cache [of "''file:///home/u/cover.png''" "demo_env\<lparr>remove_all_fails := True\<rparr>"
      "\<lparr>cache = Some OtherFile\<rparr>" initial_generator, THEN conjunct1]
  have three: "\<exists>outs fs'. update_cover_art ''file:///home/u/cover.png''
        (demo_env\<lparr>remove_all_fails := True\<rparr>)
        (\<lparr>cache = Some OtherFile\<rparr>, initial_generator)
      = Inr (outs, fs',
          initial_generator\<lparr>last_src :=
            (last_src initial_generator)\<lparr>src_art_url := ''file:///home/u/cover.png''\<rparr>\<rparr>)
      \<and> emissions outs = []" .
  from one two three show ?thesis
    by (intro conjI)
qed

end
